theory Spec2Isabelle
  imports Main Complex_Main "HOL-Library.Multiset" "HOL-Library.Char_ord" "HOL-Library.List_Lexorder"
begin

section \<open>Python values that the scripts handle\<close>

text \<open>
  Strings are \<^typ>\<open>string\<close>, lists of 8-bit characters. The string methods below are the
  ASCII fragment of Python's \<^verbatim>\<open>str\<close> methods: case mapping and white space outside ASCII
  are not modelled.
\<close>

subsection \<open>String methods\<close>

text \<open>\<^verbatim>\<open>s.split(sep)\<close> for a one-character separator: never empty, \<^verbatim>\<open>''.split('/') == ['']\<close>.\<close>

fun split_char :: "char \<Rightarrow> string \<Rightarrow> string list" where
  "split_char sep [] = [] # []"
| "split_char sep (c # cs) =
     (if c = sep then [] # split_char sep cs
      else (case split_char sep cs of
              [] \<Rightarrow> [c] # []
            | w # ws \<Rightarrow> (c # w) # ws))"

text \<open>
  White space as \<^verbatim>\<open>str.strip()\<close> sees it in ASCII: tab, line feed, vertical tab, form feed,
  carriage return, the four separators 0x1C to 0x1F, and the space.
\<close>

definition is_space :: "char \<Rightarrow> bool" where
  "is_space c \<longleftrightarrow>
     c \<in> set [CHR 0x09, CHR 0x0A, CHR 0x0B, CHR 0x0C, CHR 0x0D,
               CHR 0x1C, CHR 0x1D, CHR 0x1E, CHR 0x1F, CHR '' '']"

definition strip :: "string \<Rightarrow> string" where
  "strip s = rev (dropWhile is_space (rev (dropWhile is_space s)))"

text \<open>
  \<^verbatim>\<open>int(s)\<close> on a string, base ten: white space of the C locale around the literal is
  skipped, one sign is allowed, and the digits may be grouped by single underscores that
  stand between two digits. \<open>None\<close> is the \<^verbatim>\<open>ValueError\<close>. Digits and white space outside
  ASCII, and the limit that recent versions put on the number of digits, are not modelled.
\<close>

definition is_c_space :: "char \<Rightarrow> bool" where
  "is_c_space c \<longleftrightarrow> c \<in> set [CHR 0x09, CHR 0x0A, CHR 0x0B, CHR 0x0C, CHR 0x0D, CHR '' '']"

definition is_digit :: "char \<Rightarrow> bool" where
  "is_digit c \<longleftrightarrow> (of_char CHR ''0'' :: nat) \<le> of_char c \<and> (of_char c :: nat) \<le> of_char CHR ''9''"

definition digit_val :: "char \<Rightarrow> nat" where
  "digit_val c = of_char c - of_char CHR ''0''"

text \<open>The flag says that the character just read was a digit, so that an underscore may follow.\<close>

fun digits_value :: "bool \<Rightarrow> nat \<Rightarrow> string \<Rightarrow> nat option" where
  "digits_value after_digit acc [] = (if after_digit then Some acc else None)"
| "digits_value after_digit acc (c # cs) =
     (if is_digit c then digits_value True (10 * acc + digit_val c) cs
      else if c = CHR ''_'' \<and> after_digit then digits_value False acc cs
      else None)"

definition py_int :: "string \<Rightarrow> int option" where
  "py_int s =
     (let t = rev (dropWhile is_c_space (rev (dropWhile is_c_space s)))
      in case t of
           [] \<Rightarrow> None
         | c # cs \<Rightarrow>
             if c = CHR ''-'' then map_option (\<lambda>n. - int n) (digits_value False 0 cs)
             else if c = CHR ''+'' then map_option int (digits_value False 0 cs)
             else map_option int (digits_value False 0 t))"

text \<open>\<^verbatim>\<open>s.strip(chars)\<close> for a one-character argument, and \<^verbatim>\<open>s.lower()\<close>.\<close>

definition strip_char :: "char \<Rightarrow> string \<Rightarrow> string" where
  "strip_char x s = rev (dropWhile (\<lambda>c. c = x) (rev (dropWhile (\<lambda>c. c = x) s)))"

definition lower_char :: "char \<Rightarrow> char" where
  "lower_char c =
     (case map_of (zip ''ABCDEFGHIJKLMNOPQRSTUVWXYZ'' ''abcdefghijklmnopqrstuvwxyz'') c of
        Some l \<Rightarrow> l
      | None \<Rightarrow> c)"

definition lower :: "string \<Rightarrow> string" where
  "lower s = map lower_char s"

text \<open>\<^verbatim>\<open>s.startswith(p)\<close> and the substring test \<^verbatim>\<open>sub in s\<close>.\<close>

fun startswith :: "string \<Rightarrow> string \<Rightarrow> bool" where
  "startswith s [] = True"
| "startswith [] (p # ps) = False"
| "startswith (c # cs) (p # ps) = (c = p \<and> startswith cs ps)"

fun py_in :: "string \<Rightarrow> string \<Rightarrow> bool" where
  "py_in sub [] = (sub = [])"
| "py_in sub (c # cs) = (startswith (c # cs) sub \<or> py_in sub cs)"

text \<open>
  \<^verbatim>\<open>s.replace(old, new)\<close> for a non-empty \<open>old\<close>: the occurrences are found from left to
  right and the text put in is not searched again.
\<close>

fun replace :: "string \<Rightarrow> string \<Rightarrow> string \<Rightarrow> string" where
  "replace old new [] = []"
| "replace old new (c # cs) =
     (if old \<noteq> [] \<and> startswith (c # cs) old
      then new @ replace old new (drop (length old) (c # cs))
      else c # replace old new cs)"

subsection \<open>Counters and tables\<close>

text \<open>
  A \<^verbatim>\<open>Counter\<close>, or a \<^verbatim>\<open>dict\<close> used as one, keeps its keys in the order of their first
  insertion. \<open>counter_add\<close> is \<^verbatim>\<open>counts[key] += 1\<close> and
  \<^verbatim>\<open>counts[key] = counts.get(key, 0) + 1\<close>; \<open>Counter(iterable)\<close> is \<open>counter_of\<close>.
\<close>

type_synonym counter = "(string \<times> nat) list"

fun counter_add :: "string \<Rightarrow> counter \<Rightarrow> counter" where
  "counter_add key [] = [(key, 1)]"
| "counter_add key ((k, n) # rest) =
     (if k = key then (k, n + 1) # rest else (k, n) # counter_add key rest)"

fun counter_of :: "string list \<Rightarrow> counter \<Rightarrow> counter" where
  "counter_of [] counts = counts"
| "counter_of (key # keys) counts = counter_of keys (counter_add key counts)"

text \<open>
  A table with the columns \<^verbatim>\<open>Category\<close> and \<^verbatim>\<open>Count\<close>, row by row;
  \<^verbatim>\<open>pd.DataFrame(list(counts.items()), columns=['Category', 'Count'])\<close> is the counter itself.
\<close>

type_synonym table = "(string \<times> nat) list"

definition total_count :: "table \<Rightarrow> nat" where
  "total_count t = sum_list (map snd t)"

text \<open>The counts do not increase from a row to the next one.\<close>

definition adjacent_rows_descending :: "table \<Rightarrow> bool" where
  "adjacent_rows_descending t \<longleftrightarrow> (\<forall>i. i + 1 < length t \<longrightarrow> snd (t ! i) \<ge> snd (t ! (i + 1)))"

text \<open>
  \<^verbatim>\<open>df.sort_values(by='Count', ascending=False)\<close> is a function of pandas, called with its
  default algorithm (\<^verbatim>\<open>kind='quicksort'\<close>). The aggregators take it as the parameter \<open>srt\<close>.
  What pandas promises of it is that the result holds the same rows and that the counts
  do not increase from one row to the next; it does not promise an order among rows of
  equal count.
\<close>

definition sorts_by_count_descending :: "(table \<Rightarrow> table) \<Rightarrow> bool" where
  "sorts_by_count_descending srt \<longleftrightarrow>
     (\<forall>t. mset (srt t) = mset t \<and> sorted_wrt (\<lambda>row row'. snd row \<ge> snd row') (srt t))"

text \<open>
  One function that keeps the promise: insertion from the right, each row before the first
  row whose count is not larger.
\<close>

fun insert_row :: "string \<times> nat \<Rightarrow> table \<Rightarrow> table" where
  "insert_row row [] = [row]"
| "insert_row row (r # rs) = (if snd r \<le> snd row then row # r # rs else r # insert_row row rs)"

fun insertion_sort_desc :: "table \<Rightarrow> table" where
  "insertion_sort_desc [] = []"
| "insertion_sort_desc (row # rows) = insert_row row (insertion_sort_desc rows)"

text \<open>Another one: each row goes before the first row whose count is smaller.\<close>

fun insert_row_last :: "string \<times> nat \<Rightarrow> table \<Rightarrow> table" where
  "insert_row_last row [] = [row]"
| "insert_row_last row (r # rs) =
     (if snd r < snd row then row # r # rs else r # insert_row_last row rs)"

fun insertion_sort_desc_last :: "table \<Rightarrow> table" where
  "insertion_sort_desc_last [] = []"
| "insertion_sort_desc_last (row # rows) = insert_row_last row (insertion_sort_desc_last rows)"

subsection \<open>Decoded JSON\<close>

text \<open>What \<^verbatim>\<open>json.loads\<close> returns. Numbers are never inspected by the code modelled here.\<close>

datatype json =
    JNull
  | JBool bool
  | JNum int
  | JStr string
  | JArr "json list"
  | JObj "(string \<times> json) list"

subsection \<open>HTTP exchanges\<close>

text \<open>
  The exceptions that an exchange through \<^verbatim>\<open>requests\<close> can end with, by the classes the
  handlers test: \<open>TransportError\<close> is a \<^verbatim>\<open>requests.RequestException\<close> other than a decoding
  error (connection failure, timeout, \<^verbatim>\<open>HTTPError\<close>); \<open>RequestsJSONDecodeError\<close> is
  \<^verbatim>\<open>requests.exceptions.JSONDecodeError\<close>, a subclass of both \<^verbatim>\<open>RequestException\<close> and
  \<^verbatim>\<open>json.JSONDecodeError\<close>; \<open>PlainJSONDecodeError\<close> is a \<^verbatim>\<open>json.JSONDecodeError\<close> that is
  not a \<^verbatim>\<open>RequestException\<close>; \<open>OtherError\<close> is any other subclass of \<^verbatim>\<open>Exception\<close>;
  \<open>Interrupt\<close> is a \<^verbatim>\<open>BaseException\<close> outside \<^verbatim>\<open>Exception\<close> (\<^verbatim>\<open>KeyboardInterrupt\<close>,
  \<^verbatim>\<open>SystemExit\<close>). The string is the message that \<^verbatim>\<open>str(e)\<close> gives.
\<close>

datatype exc_class =
  TransportError | RequestsJSONDecodeError | PlainJSONDecodeError | OtherError | Interrupt

datatype exc = Exc exc_class string

fun message :: "exc \<Rightarrow> string" where
  "message (Exc _ msg) = msg"

fun is_request_exception :: "exc \<Rightarrow> bool" where
  "is_request_exception (Exc c _) \<longleftrightarrow> c = TransportError \<or> c = RequestsJSONDecodeError"

fun is_json_decode_error :: "exc \<Rightarrow> bool" where
  "is_json_decode_error (Exc c _) \<longleftrightarrow> c = RequestsJSONDecodeError \<or> c = PlainJSONDecodeError"

fun is_exception :: "exc \<Rightarrow> bool" where
  "is_exception (Exc c _) \<longleftrightarrow> c \<noteq> Interrupt"

datatype 'a outcome = Raise exc | Return 'a

text \<open>
  A response object, as far as the fetchers use it: the status code that
  \<^verbatim>\<open>raise_for_status()\<close> tests and what \<^verbatim>\<open>json()\<close> does. Python's \<^verbatim>\<open>None\<close> is \<^const>\<open>JNull\<close>.
  The message of the \<^verbatim>\<open>HTTPError\<close> is shortened to its class name; the library puts the
  status, the reason and the URL into it.
\<close>

record response =
  status_code :: nat
  json_body :: "json outcome"

definition raise_for_status :: "response \<Rightarrow> exc option" where
  "raise_for_status r =
     (if 400 \<le> status_code r \<and> status_code r < 600
      then Some (Exc TransportError ''HTTPError'') else None)"

text \<open>
  The three statements of both \<^verbatim>\<open>try\<close> blocks, given what \<^verbatim>\<open>requests.request\<close> did:
  \<^verbatim>\<open>response = requests.request(...); response.raise_for_status(); return response.json()\<close>.
\<close>

definition http_exchange :: "response outcome \<Rightarrow> exc + json" where
  "http_exchange sent =
     (case sent of
        Raise e \<Rightarrow> Inl e
      | Return r \<Rightarrow>
          (case raise_for_status r of
             Some e \<Rightarrow> Inl e
           | None \<Rightarrow> (case json_body r of Raise e \<Rightarrow> Inl e | Return j \<Rightarrow> Inr j)))"

section \<open>scripts/common/utils.py\<close>

subsection \<open>CountryMapper\<close>

text \<open>The dictionary literal \<^verbatim>\<open>COUNTRY_MAPPING\<close>, in source order.\<close>

definition COUNTRY_MAPPING :: "(string \<times> string) list" where
  "COUNTRY_MAPPING =
    [(''US'', ''United States''),
     (''DE'', ''Germany''),
     (''FR'', ''France''),
     (''CA'', ''Canada''),
     (''GB'', ''United Kingdom''),
     (''NL'', ''Netherlands''),
     (''JP'', ''Japan''),
     (''SG'', ''Singapore''),
     (''RU'', ''Russia''),
     (''FI'', ''Finland''),
     (''CH'', ''Switzerland''),
     (''CN'', ''China''),
     (''KR'', ''South Korea''),
     (''AU'', ''Australia''),
     (''HK'', ''Hong Kong''),
     (''UA'', ''Ukraine''),
     (''IT'', ''Italy''),
     (''SE'', ''Sweden''),
     (''BR'', ''Brazil''),
     (''ES'', ''Spain''),
     (''VN'', ''Vietnam''),
     (''IN'', ''India''),
     (''TW'', ''Taiwan''),
     (''PL'', ''Poland''),
     (''IE'', ''Ireland''),
     (''ZA'', ''South Africa''),
     (''NZ'', ''New Zealand''),
     (''CZ'', ''Czechia''),
     (''LT'', ''Lithuania''),
     (''ID'', ''Indonesia''),
     (''NO'', ''Norway''),
     (''BE'', ''Belgium''),
     (''IR'', ''Iran''),
     (''AT'', ''Austria''),
     (''EE'', ''Estonia''),
     (''TR'', ''Turkey''),
     (''MY'', ''Myanmar''),
     (''HU'', ''Hungary''),
     (''MX'', ''Mexico''),
     (''TH'', ''Thailand''),
     (''SI'', ''Slovenia''),
     (''IL'', ''Israel''),
     (''RO'', ''Romania''),
     (''NG'', ''Nigeria''),
     (''PT'', ''Portugal''),
     (''SK'', ''Slovakia''),
     (''RS'', ''Serbia''),
     (''BG'', ''Bulgaria''),
     (''LV'', ''Latvia'')]"

text \<open>\<^verbatim>\<open>dict.get(key, default)\<close> on a dictionary held as an association list.\<close>

definition dict_get :: "('k \<times> 'v) list \<Rightarrow> 'k \<Rightarrow> 'v \<Rightarrow> 'v" where
  "dict_get d k dflt = (case map_of d k of Some v \<Rightarrow> v | None \<Rightarrow> dflt)"

text \<open>\<^verbatim>\<open>return CountryMapper.COUNTRY_MAPPING.get(code, code)\<close>\<close>

definition get_country_name :: "string \<Rightarrow> string" where
  "get_country_name code = dict_get COUNTRY_MAPPING code code"

subsection \<open>APIUtils\<close>

text \<open>
  \<^verbatim>\<open>APIUtils.make_request\<close>. \<open>request\<close> is \<^verbatim>\<open>requests.request\<close> with the keyword arguments
  fixed. The result is the lines printed and then either the exception that leaves the
  function or the value returned.
\<close>

definition make_request ::
  "(string \<Rightarrow> string \<Rightarrow> response outcome) \<Rightarrow> string \<Rightarrow> string \<Rightarrow> string list \<times> (exc + json)"
where
  "make_request request url method =
     (case http_exchange (request method url) of
        Inr j \<Rightarrow> ([], Inr j)
      | Inl e \<Rightarrow>
          if is_request_exception e then ([''API request error: '' @ message e], Inr JNull)
          else if is_exception e then ([''Unexpected error: '' @ message e], Inr JNull)
          else ([], Inl e))"

section \<open>scripts/node_counts/total_node_count_fetch_data.py\<close>

text \<open>What \<^verbatim>\<open>_make_request\<close> does besides returning: calls, pauses and log records.\<close>

datatype event = Call nat | Sleep nat | LogError string

text \<open>
  \<^verbatim>\<open>for attempt in range(retries)\<close> of \<^verbatim>\<open>BlockchainNodesFetcher._make_request\<close>, from
  \<open>attempt\<close> on. \<open>request attempt\<close> is what the call of \<^verbatim>\<open>requests.request\<close> in that round
  does. A loop that ran out would return \<^verbatim>\<open>None\<close>.
\<close>

function make_request_loop ::
  "(nat \<Rightarrow> response outcome) \<Rightarrow> string \<Rightarrow> nat \<Rightarrow> nat \<Rightarrow> event list \<times> (exc + json)"
where
  "make_request_loop request url retries attempt =
     (if attempt < retries then
        (case http_exchange (request attempt) of
           Inr j \<Rightarrow> ([Call attempt], Inr j)
         | Inl e \<Rightarrow>
             if is_request_exception e then
               (if attempt = retries - 1
                then ([Call attempt,
                       LogError (''Request error for '' @ url @ '': '' @ message e)], Inr JNull)
                else (case make_request_loop request url retries (attempt + 1) of
                        (evs, res) \<Rightarrow> (Call attempt # Sleep (1 * (attempt + 1)) # evs, res)))
             else if is_json_decode_error e then
               ([Call attempt,
                 LogError (''JSON parsing error for '' @ url @ '': '' @ message e)], Inr JNull)
             else ([Call attempt], Inl e))
      else ([], Inr JNull))"
  by pat_completeness auto
termination
  by (relation "measure (\<lambda>(request, url, retries, attempt). retries - attempt)") auto

declare make_request_loop.simps [simp del]

definition fetcher_make_request ::
  "(nat \<Rightarrow> response outcome) \<Rightarrow> string \<Rightarrow> event list \<times> (exc + json)" where
  "fetcher_make_request request url = make_request_loop request url 3 0"

fun calls :: "event list \<Rightarrow> nat list" where
  "calls [] = []"
| "calls (Call a # evs) = a # calls evs"
| "calls (_ # evs) = calls evs"

fun sleeps :: "event list \<Rightarrow> nat list" where
  "sleeps [] = []"
| "sleeps (Sleep s # evs) = s # sleeps evs"
| "sleeps (_ # evs) = sleeps evs"

section \<open>scripts/blockchains/bitcoin.py\<close>

text \<open>
  One value of \<^verbatim>\<open>self.data['nodes']\<close>: an array of the Bitnodes snapshot, of which the
  aggregators modelled here read the components 1 (user agent) and 7 (country code), each
  a string or \<^verbatim>\<open>null\<close>.
\<close>

record node_info =
  version_string :: "string option"
  country :: "string option"

definition valid_clients :: "(string \<times> string) list" where
  "valid_clients =
     [(''Satoshi'', ''Bitcoin Core''),
      (''btcwire'', ''btcd''),
      (''bcoin'', ''bcoin''),
      (''libbitcoin'', ''libbitcoin'')]"

text \<open>The fifth keyword is written by its UTF-8 bytes.\<close>

definition invalid_keywords :: "string list" where
  "invalid_keywords =
     [''BTF'', ''CKCoinD'', ''Aurum'', ''Statoshi'',
      [CHR 0xEF, CHR 0xA3, CHR 0xBF, CHR 0xC3, CHR 0xBC, CHR 0xC3, CHR 0xB4, CHR 0xC3, CHR 0xA8],
      ''Ladybug'', ''Classic'', ''ABC'', ''Unlimited'', ''Natasha'']"

text \<open>
  The body of the loop of \<^verbatim>\<open>process_client_distribution\<close>: the key of \<^verbatim>\<open>client_counts\<close> that
  one node increments, if any.
\<close>

definition client_key :: "node_info \<Rightarrow> string option" where
  "client_key info =
     (case version_string info of
        None \<Rightarrow> None
      | Some vs \<Rightarrow>
          if vs = [] then None
          else
            let version_clean = strip_char CHR ''/'' vs in
            if py_in ''Knots'' version_clean then Some ''Bitcoin Knots''
            else
              let parts = split_char CHR '':'' version_clean in
              if length parts < 2 then None
              else
                (case parts of
                   [] \<Rightarrow> None
                 | client_name # _ \<Rightarrow>
                     if list_ex (\<lambda>keyword. py_in keyword version_clean) invalid_keywords
                     then None
                     else map_of valid_clients client_name))"

fun count_clients :: "node_info list \<Rightarrow> counter \<Rightarrow> counter" where
  "count_clients [] client_counts = client_counts"
| "count_clients (info # nodes) client_counts =
     (case client_key info of
        None \<Rightarrow> count_clients nodes client_counts
      | Some key \<Rightarrow> count_clients nodes (counter_add key client_counts))"

text \<open>
  \<^verbatim>\<open>BitcoinAnalyzer.process_client_distribution\<close>; \<open>None\<close> is data that is empty or has no
  \<^verbatim>\<open>'nodes'\<close>. The last step is \<^verbatim>\<open>df[df['Count'] > 1]\<close>.
\<close>

definition process_client_distribution ::
  "(table \<Rightarrow> table) \<Rightarrow> node_info list option \<Rightarrow> table" where
  "process_client_distribution srt data =
     (case data of
        None \<Rightarrow> []
      | Some nodes \<Rightarrow> filter (\<lambda>row. snd row > 1) (srt (count_clients nodes [])))"

text \<open>The first loop of \<^verbatim>\<open>process_data\<close> and the table made of \<^verbatim>\<open>country_counts\<close>.\<close>

fun count_countries :: "node_info list \<Rightarrow> counter \<Rightarrow> counter" where
  "count_countries [] country_counts = country_counts"
| "count_countries (info # nodes) country_counts =
     (case country info of
        None \<Rightarrow> count_countries nodes country_counts
      | Some c \<Rightarrow>
          if c \<noteq> [] \<and> c \<noteq> ''null'' \<and> c \<noteq> ''TOR''
          then count_countries nodes (counter_add c country_counts)
          else count_countries nodes country_counts)"

definition process_data_geographic :: "(table \<Rightarrow> table) \<Rightarrow> node_info list \<Rightarrow> table" where
  "process_data_geographic srt nodes = srt (count_countries nodes [])"

section \<open>scripts/blockchains/ethereum.py\<close>

subsection \<open>Address extraction\<close>

text \<open>
  \<^verbatim>\<open>all(0 <= int(part) <= 255 for part in parts)\<close> inside \<^verbatim>\<open>try ... except ValueError:
  return False\<close>: the parts are read left to right, the first one out of range ends the
  test with \<open>False\<close>, and so does the first one that \<^verbatim>\<open>int\<close> rejects.
\<close>

fun octets_ok :: "string list \<Rightarrow> bool" where
  "octets_ok [] = True"
| "octets_ok (part # parts) =
     (case py_int part of
        None \<Rightarrow> False
      | Some n \<Rightarrow> if 0 \<le> n \<and> n \<le> 255 then octets_ok parts else False)"

definition is_valid_ip :: "string \<Rightarrow> bool" where
  "is_valid_ip ip =
     (let parts = split_char CHR ''.'' ip
      in if length parts \<noteq> 4 then False else octets_ok parts)"

text \<open>
  The inner loop of \<^verbatim>\<open>_extract_ips\<close> over \<^verbatim>\<open>enumerate(parts)\<close>: a part equal to
  \<^verbatim>\<open>'ip4'\<close> that has a successor contributes the successor when it is a valid address.
\<close>

fun ip4_scan :: "string list \<Rightarrow> string list" where
  "ip4_scan (part # nxt # rest) =
     (if part = ''ip4'' \<and> is_valid_ip nxt then nxt # ip4_scan (nxt # rest)
      else ip4_scan (nxt # rest))"
| "ip4_scan _ = []"

text \<open>One element of \<^verbatim>\<open>maddrs\<close>: skipped unless it is a string.\<close>

fun addr_ips :: "json \<Rightarrow> string list" where
  "addr_ips (JStr addr) = ip4_scan (split_char CHR ''/'' addr)"
| "addr_ips _ = []"

text \<open>
  \<^verbatim>\<open>_extract_ips\<close>. The result is \<^verbatim>\<open>list(set(ips))\<close>; Python leaves the order in which a
  set is enumerated open, and \<^const>\<open>remdups\<close> fixes one enumeration. No statement below
  depends on that order.
\<close>

fun extract_ips :: "json \<Rightarrow> string list" where
  "extract_ips (JArr maddrs) = remdups (concat (map addr_ips maddrs))"
| "extract_ips _ = []"

fun isinstance_list :: "json \<Rightarrow> bool" where
  "isinstance_list (JArr _) = True"
| "isinstance_list _ = False"

subsection \<open>Distributions\<close>

text \<open>
  \<^verbatim>\<open>process_geographic_distribution\<close>: \<open>data\<close> is the column \<^verbatim>\<open>country_name\<close> of the table
  read from the database, \<open>None\<close> in it a missing value, which \<^verbatim>\<open>dropna()\<close> removes.
\<close>

definition dropna :: "'a option list \<Rightarrow> 'a list" where
  "dropna col = concat (map (\<lambda>v. case v of None \<Rightarrow> [] | Some x \<Rightarrow> [x]) col)"

definition process_geographic_distribution ::
  "(table \<Rightarrow> table) \<Rightarrow> string option list option \<Rightarrow> table" where
  "process_geographic_distribution srt data =
     (case data of
        None \<Rightarrow> []
      | Some country_name \<Rightarrow> srt (counter_of (dropna country_name) []))"

text \<open>
  A line of the raw data file: blank, rejected by \<^verbatim>\<open>json.loads\<close>, or decoded. The reader of
  the ASN database maps an address to the organization name (which may be missing) or
  raises.
\<close>

datatype file_line = Blank | NotJSON | Decoded json

type_synonym asn_reader = "string \<Rightarrow> string option outcome"

text \<open>The chain of \<^verbatim>\<open>replace\<close> calls and the final \<^verbatim>\<open>strip()\<close> of the Ethereum script.\<close>

definition clean_provider_name :: "string \<Rightarrow> string" where
  "clean_provider_name org =
     strip (replace '' Corp.'' '''' (replace '' Corporation'' '''' (replace '' Inc.'' ''''
       (replace '' Ltd.'' '''' (replace '' LLC'' '''' org)))))"

text \<open>\<^verbatim>\<open>for ip in ips\<close>: an address is skipped when the lookup raises or gives no name.\<close>

fun count_hosting_ips :: "asn_reader \<Rightarrow> string list \<Rightarrow> counter \<Rightarrow> counter" where
  "count_hosting_ips reader [] hosting_counts = hosting_counts"
| "count_hosting_ips reader (ip # ips) hosting_counts =
     (case reader ip of
        Raise e \<Rightarrow> count_hosting_ips reader ips hosting_counts
      | Return None \<Rightarrow> count_hosting_ips reader ips hosting_counts
      | Return (Some org) \<Rightarrow>
          if org \<noteq> []
          then count_hosting_ips reader ips (counter_add (clean_provider_name org) hosting_counts)
          else count_hosting_ips reader ips hosting_counts)"

text \<open>
  The addresses that one line contributes: \<^verbatim>\<open>node_data.get('Maddrs', [])\<close>, skipped when
  \<^verbatim>\<open>None\<close>, then \<^verbatim>\<open>_extract_ips\<close>. \<open>Inl\<close> is the \<^verbatim>\<open>AttributeError\<close> of a decoded value that
  is not an object and has no \<^verbatim>\<open>get\<close>.
\<close>

fun line_ips :: "file_line \<Rightarrow> exc + string list" where
  "line_ips Blank = Inr []"
| "line_ips NotJSON = Inr []"
| "line_ips (Decoded (JObj node_data)) =
     (case dict_get node_data ''Maddrs'' (JArr []) of
        JNull \<Rightarrow> Inr []
      | maddrs \<Rightarrow> Inr (extract_ips maddrs))"
| "line_ips (Decoded _) = Inl (Exc OtherError ''AttributeError'')"

text \<open>
  \<^verbatim>\<open>for line in file\<close>. An exception that is not a \<^verbatim>\<open>JSONDecodeError\<close> leaves the loop for
  the outer handler, which prints it; the table is then built from the counts so far.
\<close>

fun count_hosting_lines :: "asn_reader \<Rightarrow> file_line list \<Rightarrow> counter \<Rightarrow> counter" where
  "count_hosting_lines reader [] hosting_counts = hosting_counts"
| "count_hosting_lines reader (line # lines) hosting_counts =
     (case line_ips line of
        Inl e \<Rightarrow> hosting_counts
      | Inr ips \<Rightarrow> count_hosting_lines reader lines (count_hosting_ips reader ips hosting_counts))"

text \<open>
  \<^verbatim>\<open>EthereumAnalyzer.process_hosting_distribution\<close>. \<open>raw_data\<close> is \<open>None\<close> when the file does
  not exist, \<open>reader\<close> is \<open>None\<close> when the database cannot be opened.
\<close>

definition process_hosting_distribution ::
  "(table \<Rightarrow> table) \<Rightarrow> asn_reader option \<Rightarrow> file_line list option \<Rightarrow> table" where
  "process_hosting_distribution srt reader raw_data =
     (case raw_data of
        None \<Rightarrow> []
      | Some lines \<Rightarrow>
          (case reader of
             None \<Rightarrow> srt []
           | Some r \<Rightarrow> srt (count_hosting_lines r lines [])))"

text \<open>
  The number of addresses that \<^verbatim>\<open>_extract_ips\<close> yields over the lines that the loop reads,
  line by line; a reader that names one organization for every address.
\<close>

fun extracted_addresses :: "file_line list \<Rightarrow> nat" where
  "extracted_addresses [] = 0"
| "extracted_addresses (line # lines) =
     (case line_ips line of
        Inl e \<Rightarrow> 0
      | Inr ips \<Rightarrow> length ips + extracted_addresses lines)"

definition hetzner_reader :: asn_reader where
  "hetzner_reader ip = Return (Some ''Hetzner Online GmbH'')"

section \<open>scripts/blockchains/ethereum_classic.py\<close>

text \<open>Truth value of a decoded JSON value in a condition.\<close>

fun truthy :: "json \<Rightarrow> bool" where
  "truthy JNull = False"
| "truthy (JBool b) = b"
| "truthy (JNum n) = (n \<noteq> 0)"
| "truthy (JStr s) = (s \<noteq> [])"
| "truthy (JArr xs) = (xs \<noteq> [])"
| "truthy (JObj kvs) = (kvs \<noteq> [])"

text \<open>\<^verbatim>\<open>org.split(' ', 1)[1] if ' ' in org else org\<close>\<close>

definition provider_of :: "string \<Rightarrow> string" where
  "provider_of org =
     (if CHR '' '' \<in> set org then tl (dropWhile (\<lambda>c. c \<noteq> CHR '' '') org) else org)"

text \<open>
  The body of the loop of \<^verbatim>\<open>EthereumClassicAnalyzer.process_hosting_distribution\<close>: the key
  that one node increments, if any. Every test or access that raises (a node or an
  \<^verbatim>\<open>ip_info\<close> that is not an object, an organization that is not a string) ends in the
  handler, which counts \<^verbatim>\<open>'Unknown'\<close>, as the \<^verbatim>\<open>else\<close> branch does; an organization that is
  false in a condition counts nothing.
\<close>

fun etc_hosting_key :: "json \<Rightarrow> string option" where
  "etc_hosting_key (JObj node) =
     (case map_of node ''ip_info'' of
        Some (JObj ip_info) \<Rightarrow>
          (case map_of ip_info ''org'' of
             None \<Rightarrow> Some ''Unknown''
           | Some org \<Rightarrow>
               if truthy org
               then (case org of JStr s \<Rightarrow> Some (provider_of s) | _ \<Rightarrow> Some ''Unknown'')
               else None)
      | _ \<Rightarrow> Some ''Unknown'')"
| "etc_hosting_key _ = Some ''Unknown''"

fun etc_count_hosting :: "json list \<Rightarrow> counter \<Rightarrow> counter" where
  "etc_count_hosting [] hosting_counts = hosting_counts"
| "etc_count_hosting (node # nodes) hosting_counts =
     (case etc_hosting_key node of
        None \<Rightarrow> etc_count_hosting nodes hosting_counts
      | Some key \<Rightarrow> etc_count_hosting nodes (counter_add key hosting_counts))"

text \<open>
  \<^verbatim>\<open>(df['Count'] / total * 100).round(2)\<close> as a rational number: the nearest multiple of
  one hundredth, a tie going to the even one. The source computes it in binary floating
  point.
\<close>

definition round_half_even :: "rat \<Rightarrow> int" where
  "round_half_even x =
     (let f = \<lfloor>x\<rfloor>; d = x - of_int f
      in if d < 1 / 2 then f else if d > 1 / 2 then f + 1 else if even f then f else f + 1)"

definition rounded_percentage :: "nat \<Rightarrow> nat \<Rightarrow> rat" where
  "rounded_percentage whole n =
     of_int (round_half_even (of_nat n / of_nat whole * 100 * 100)) / 100"

text \<open>
  \<^verbatim>\<open>EthereumClassicAnalyzer.process_hosting_distribution\<close>: the rows under 3.3 percent are
  taken out of the sorted table, and one row \<^verbatim>\<open>Others\<close> with the sum of their counts is
  put after the rows that stay.
\<close>

definition etc_process_hosting_distribution :: "(table \<Rightarrow> table) \<Rightarrow> json list \<Rightarrow> table" where
  "etc_process_hosting_distribution srt data =
     (let hosting_counts = etc_count_hosting data []
      in if hosting_counts \<noteq> [] then
           (let df = srt hosting_counts;
                whole = sum_list (map snd df);
                others_df = filter (\<lambda>row. rounded_percentage whole (snd row) < 33 / 10) df;
                others_count = sum_list (map snd others_df);
                main_df = filter (\<lambda>row. rounded_percentage whole (snd row) \<ge> 33 / 10) df
            in main_df @ [(''Others'', others_count)])
         else [])"

text \<open>Nodes for examples: the lookup of the node named one organization.\<close>

definition node_of_org :: "string \<Rightarrow> json" where
  "node_of_org org = JObj [(''ip_info'', JObj [(''org'', JStr org)])]"

section \<open>scripts/blockchains/solana.py\<close>

text \<open>The dictionary \<^verbatim>\<open>known_providers\<close>; \<^verbatim>\<open>items()\<close> enumerates it in this order.\<close>

definition known_providers :: "(string \<times> string list) list" where
  "known_providers =
     [(''OVH'', [''OVH'', ''OVH SAS'', ''OVH Hosting'']),
      (''Hetzner'', [''Hetzner'', ''Hetzner Online'', ''Hetzner Online GmbH'', ''HETZNER'']),
      (''DigitalOcean'', [''DIGITALOCEAN'', ''DigitalOcean'', ''DIGITALOCEAN-ASN'', ''DIGITALOCEAN-N'']),
      (''Amazon AWS'', [''Amazon'', ''Amazon.com'', ''AWS'', ''AMAZON-AES'', ''AMAZON-02'', ''AMAZON-'',
                       ''Amazon Technologies'', ''AMAZON'']),
      (''Google Cloud'', [''Google'', ''Google Cloud'', ''GOOGLE'', ''GCP'', ''Google LLC'']),
      (''Microsoft Azure'', [''Microsoft'', ''Azure'', ''Microsoft Corporation'', ''MICROSOFT-CORP'',
                            ''MICROSOFT'']),
      (''Vultr'', [''Vultr'', ''Vultr Holdings'', ''VULTR-AS'', ''AS-VULTR'']),
      (''Linode'', [''Linode'', ''LINODE-AP'', ''LINODE'', ''Linode LLC'']),
      (''Equinix'', [''Equinix'', ''EQUINIX'', ''PACKET'', ''Packet Host'']),
      (''Alibaba'', [''Alibaba'', ''ALIBABA'', ''Aliyun''])]"

definition excluded_words :: "string list" where
  "excluded_words = [''residential'', ''university'', ''college'', ''school'', ''home'', ''telecom'']"

text \<open>The chain of \<^verbatim>\<open>replace\<close> calls and the final \<^verbatim>\<open>strip()\<close> of the Solana script.\<close>

definition strip_suffixes :: "string \<Rightarrow> string" where
  "strip_suffixes org =
     strip (replace '' AG'' '''' (replace '' SA'' '''' (replace '' Corp.'' ''''
       (replace '' Corporation'' '''' (replace '' Inc.'' '''' (replace '' Ltd.'' ''''
         (replace '' LLC'' '''' org)))))))"

text \<open>
  \<^verbatim>\<open>for provider, variations in known_providers.items()\<close> with its \<^verbatim>\<open>break\<close>: the provider
  whose counter the loop increments, \<open>None\<close> when it ends with \<^verbatim>\<open>provider_matched\<close> false.
\<close>

fun match_provider :: "(string \<times> string list) list \<Rightarrow> string \<Rightarrow> string option" where
  "match_provider [] org = None"
| "match_provider ((provider, variations) # rest) org =
     (if list_ex (\<lambda>variation. py_in (lower variation) (lower org)) variations
      then Some provider
      else match_provider rest org)"

text \<open>
  The body of the loop of \<^verbatim>\<open>SolanaAnalyzer.process_hosting_distribution\<close> from the result of
  the lookup on: the key of \<^verbatim>\<open>hosting_counts\<close> that a node increments whose lookup gave
  \<open>org\<close>, if any.
\<close>

definition hosting_key :: "string option \<Rightarrow> string option" where
  "hosting_key looked_up =
     (case looked_up of
        None \<Rightarrow> None
      | Some org0 \<Rightarrow>
          if org0 = [] then None
          else
            let org = strip_suffixes org0 in
            (case match_provider known_providers org of
               Some provider \<Rightarrow> Some provider
             | None \<Rightarrow>
                 if \<not> list_ex (\<lambda>x. py_in x (lower org)) excluded_words
                 then Some org
                 else None))"

definition count_hosting_org :: "string option \<Rightarrow> counter \<Rightarrow> counter" where
  "count_hosting_org looked_up hosting_counts =
     (case hosting_key looked_up of
        None \<Rightarrow> hosting_counts
      | Some key \<Rightarrow> counter_add key hosting_counts)"

text \<open>
  The words of the classification rule, said without the functions of the script. Two
  characters are the same letter when they are equal or are the capital and the small form
  of one letter of the ASCII alphabet; a text occurs in a name, the case of the letters
  set aside, when a stretch of the name has the length of the text and letter for letter
  the same letters; a text occurs in a name when a stretch of the name is the text.
\<close>

definition same_letter :: "char \<Rightarrow> char \<Rightarrow> bool" where
  "same_letter c d \<longleftrightarrow>
     c = d \<or>
     (c, d) \<in> set (zip ''ABCDEFGHIJKLMNOPQRSTUVWXYZ'' ''abcdefghijklmnopqrstuvwxyz'') \<or>
     (d, c) \<in> set (zip ''ABCDEFGHIJKLMNOPQRSTUVWXYZ'' ''abcdefghijklmnopqrstuvwxyz'')"

definition same_ignoring_case :: "string \<Rightarrow> string \<Rightarrow> bool" where
  "same_ignoring_case s t \<longleftrightarrow> list_all2 same_letter s t"

definition occurs_ignoring_case :: "string \<Rightarrow> string \<Rightarrow> bool" where
  "occurs_ignoring_case sub s \<longleftrightarrow>
     (\<exists>pre mid post. s = pre @ mid @ post \<and> same_ignoring_case mid sub)"

definition occurs :: "string \<Rightarrow> string \<Rightarrow> bool" where
  "occurs sub s \<longleftrightarrow> (\<exists>pre post. s = pre @ sub @ post)"

text \<open>
  The corporate suffixes, in the order in which the script removes them, and names on which
  the removal has nothing to do: no suffix occurs in them and they neither begin nor end
  with white space.
\<close>

definition corporate_suffixes :: "string list" where
  "corporate_suffixes =
     ['' LLC'', '' Ltd.'', '' Inc.'', '' Corporation'', '' Corp.'', '' SA'', '' AG'']"

definition free_of_suffixes :: "string \<Rightarrow> bool" where
  "free_of_suffixes name \<longleftrightarrow>
     (\<forall>sfx \<in> set corporate_suffixes. \<not> occurs sfx name) \<and>
     (name = [] \<or> (\<not> is_space (hd name) \<and> \<not> is_space (last name)))"

text \<open>
  The rule of the classification in these words, for a name whose suffixes are removed:
  the first provider of \<^verbatim>\<open>known_providers\<close>, in the order of the table, one of whose variations
  occurs in the name, the case of the letters set aside; without such a provider the name
  itself, unless one of the excluded words occurs in it, and then nothing.
\<close>

definition category_by_rule :: "string \<Rightarrow> string option" where
  "category_by_rule name =
     (case find (\<lambda>(provider, variations).
                   \<exists>v \<in> set variations. occurs_ignoring_case v name) known_providers of
        Some (provider, variations) \<Rightarrow> Some provider
      | None \<Rightarrow>
          if \<exists>x \<in> set excluded_words. occurs_ignoring_case x name then None else Some name)"

section \<open>scripts/common/plotting.py\<close>

text \<open>
  The column \<^verbatim>\<open>(data["Count"] / total_count) * 100\<close>, as a rational number; \<open>None\<close> is the
  \<^verbatim>\<open>NaN\<close> that the division of zero by a zero total gives, for which both comparisons with
  1.5 are false. The source computes the quotient and the product in binary floating
  point; the rounding can change the outcome of a comparison only for a percentage within
  rounding distance of 1.5.
\<close>

definition percentage :: "nat \<Rightarrow> nat \<Rightarrow> rat option" where
  "percentage whole n = (if whole = 0 then None else Some (of_nat n / of_nat whole * 100))"

definition at_least :: "rat \<Rightarrow> rat option \<Rightarrow> bool" where
  "at_least x p = (case p of None \<Rightarrow> False | Some q \<Rightarrow> q \<ge> x)"

definition below :: "rat \<Rightarrow> rat option \<Rightarrow> bool" where
  "below x p = (case p of None \<Rightarrow> False | Some q \<Rightarrow> q < x)"

text \<open>
  \<^verbatim>\<open>groupby('Category', as_index=False).sum()\<close>: one row for each category, in the ascending
  order of the categories, with the counts of its rows added up.
\<close>

definition groupby_sum :: "table \<Rightarrow> table" where
  "groupby_sum t =
     map (\<lambda>c. (c, sum_list (map snd (filter (\<lambda>row. fst row = c) t))))
       (sort (remdups (map fst t)))"

text \<open>
  What \<^verbatim>\<open>plot_pie_chart_with_filtered_legend\<close> hands to \<^verbatim>\<open>plt.pie\<close> and \<^verbatim>\<open>plt.legend\<close>: the rows
  of \<^verbatim>\<open>filtered_data\<close>, and the legend entries as pairs of category and percentage (the
  source prints the percentage with one decimal).
\<close>

record pie_chart =
  slices :: table
  legend :: "(string \<times> rat) list"

text \<open>
  \<open>data\<close> is the table read from the CSV file, a category that is missing being \<open>None\<close>.
  The total is taken before the rows without a category are dropped.
\<close>

definition plot_pie_chart_with_filtered_legend ::
  "(table \<Rightarrow> table) \<Rightarrow> (string option \<times> nat) list \<Rightarrow> bool \<Rightarrow> pie_chart" where
  "plot_pie_chart_with_filtered_legend srt data convert_countries =
     (let data1 = (if convert_countries
                   then map (\<lambda>(c, n). (map_option get_country_name c, n)) data
                   else data);
          whole = sum_list (map snd data1);
          data2 = concat (map (\<lambda>(c, n). case c of None \<Rightarrow> [] | Some x \<Rightarrow> [(x, n)]) data1);
          sorted_data = srt data2;
          large_data = filter (\<lambda>row. at_least (3 / 2) (percentage whole (snd row))) sorted_data;
          others = sum_list (map snd
                     (filter (\<lambda>row. below (3 / 2) (percentage whole (snd row))) sorted_data));
          filtered_data = (if others > 0
                           then groupby_sum (large_data @ [(''Others'', others)])
                           else large_data)
      in \<lparr>slices = filtered_data,
          legend = concat (map (\<lambda>(c, n).
                      case percentage whole n of
                        None \<Rightarrow> []
                      | Some p \<Rightarrow> if p \<ge> 3 / 2 then [(c, p)] else [])
                    filtered_data)\<rparr>)"

section \<open>Properties\<close>

subsection \<open>Country-code translation\<close>

lemma COUNTRY_MAPPING_keys_distinct: "distinct (map fst COUNTRY_MAPPING)"
  unfolding COUNTRY_MAPPING_def by simp

text \<open>
  Claim C9. \<^verbatim>\<open>CountryMapper.get_country_name\<close> is a total function of its argument alone:
  a code that is a key of \<^verbatim>\<open>COUNTRY_MAPPING\<close> is sent to the display name the table pairs
  it with, and every other string is returned unchanged.
\<close>

theorem get_country_name_table_or_passthrough:
  "((code, name) \<in> set COUNTRY_MAPPING \<longrightarrow> get_country_name code = name) \<and>
   (code \<notin> fst ` set COUNTRY_MAPPING \<longrightarrow> get_country_name code = code)"
proof (intro conjI impI)
  assume "(code, name) \<in> set COUNTRY_MAPPING"
  then have "map_of COUNTRY_MAPPING code = Some name"
    using COUNTRY_MAPPING_keys_distinct by simp
  then show "get_country_name code = name"
    by (simp add: get_country_name_def dict_get_def)
next
  assume "code \<notin> fst ` set COUNTRY_MAPPING"
  then have "map_of COUNTRY_MAPPING code = None"
    by (simp add: map_of_eq_None_iff)
  then show "get_country_name code = code"
    by (simp add: get_country_name_def dict_get_def)
qed

theorem get_country_name_table_or_passthrough_witness:
  "get_country_name ''DE'' = ''Germany'' \<and> get_country_name ''XK'' = ''XK''"
proof -
  have k: "(''DE'', ''Germany'') \<in> set COUNTRY_MAPPING"
    by (simp add: COUNTRY_MAPPING_def)
  have u: "''XK'' \<notin> fst ` set COUNTRY_MAPPING"
    by (simp add: COUNTRY_MAPPING_def)
  from k u get_country_name_table_or_passthrough [of "''DE''" "''Germany''"]
    get_country_name_table_or_passthrough [of "''XK''" "''XK''"]
  show ?thesis by blast
qed

subsection \<open>Address extraction\<close>

lemma ip4_scan_valid: "ip \<in> set (ip4_scan parts) \<Longrightarrow> is_valid_ip ip"
  by (induction parts rule: ip4_scan.induct) (auto split: if_splits)

lemma addr_ips_valid: "ip \<in> set (addr_ips addr) \<Longrightarrow> is_valid_ip ip"
  by (cases addr) (auto dest: ip4_scan_valid)

lemma octets_ok_iff:
  "octets_ok parts \<longleftrightarrow> (\<forall>part \<in> set parts. \<exists>n. py_int part = Some n \<and> 0 \<le> n \<and> n \<le> 255)"
  by (induction parts) (auto split: option.splits)

lemma is_valid_ip_iff:
  "is_valid_ip ip \<longleftrightarrow>
     length (split_char CHR ''.'' ip) = 4 \<and>
     (\<forall>part \<in> set (split_char CHR ''.'' ip). \<exists>n. py_int part = Some n \<and> 0 \<le> n \<and> n \<le> 255)"
  by (simp add: is_valid_ip_def Let_def octets_ok_iff)

text \<open>
  Claim C10. Whatever decoded JSON value \<^verbatim>\<open>_extract_ips\<close> is given, the list it returns has
  no duplicates, and each element is accepted by \<^verbatim>\<open>_is_valid_ip\<close>: splitting it at the dots
  gives exactly four parts, and \<^verbatim>\<open>int\<close> reads each part as a number from 0 to 255. A value
  that is not a list gives the empty list. The function has no failing branch: the only
  exception raised inside it, the \<^verbatim>\<open>ValueError\<close> of \<^verbatim>\<open>int\<close>, is caught in \<^verbatim>\<open>_is_valid_ip\<close>
  and is the \<open>None\<close> case of \<^const>\<open>octets_ok\<close>.
\<close>

theorem extract_ips_distinct_valid:
  "distinct (extract_ips maddrs) \<and>
   (\<forall>ip \<in> set (extract_ips maddrs).
      is_valid_ip ip \<and>
      length (split_char CHR ''.'' ip) = 4 \<and>
      (\<forall>part \<in> set (split_char CHR ''.'' ip).
         \<exists>n. py_int part = Some n \<and> 0 \<le> n \<and> n \<le> 255)) \<and>
   (\<not> isinstance_list maddrs \<longrightarrow> extract_ips maddrs = [])"
proof (cases maddrs)
  case (JArr addrs)
  have "is_valid_ip ip" if "ip \<in> set (extract_ips maddrs)" for ip
    using that JArr by (auto dest: addr_ips_valid)
  then show ?thesis
    using JArr is_valid_ip_iff by auto
qed simp_all

theorem extract_ips_distinct_valid_witness:
  "extract_ips (JArr [JStr ''/ip4/1.2.3.4/tcp/30303'', JStr ''/ip4/1.2.3.4/udp/30303'',
                      JStr ''/ip4/999.1.1.1/tcp/1'', JNum 3, JStr ''/ip4/10.0.0.1'']) =
     [''1.2.3.4'', ''10.0.0.1''] \<and>
   is_valid_ip ''1.2.3.4'' \<and> is_valid_ip ''10.0.0.1'' \<and>
   \<not> isinstance_list (JStr ''/ip4/1.2.3.4'') \<and> extract_ips (JStr ''/ip4/1.2.3.4'') = []"
proof -
  let ?m = "JArr [JStr ''/ip4/1.2.3.4/tcp/30303'', JStr ''/ip4/1.2.3.4/udp/30303'',
                  JStr ''/ip4/999.1.1.1/tcp/1'', JNum 3, JStr ''/ip4/10.0.0.1'']"
  have run: "extract_ips ?m = [''1.2.3.4'', ''10.0.0.1'']"
    by code_simp
  have "\<forall>ip \<in> set (extract_ips ?m). is_valid_ip ip"
    using extract_ips_distinct_valid [of ?m] by blast
  then have valid: "is_valid_ip ''1.2.3.4'' \<and> is_valid_ip ''10.0.0.1''"
    unfolding run by simp
  have no_list: "\<not> isinstance_list (JStr ''/ip4/1.2.3.4'')"
    by simp
  have "extract_ips (JStr ''/ip4/1.2.3.4'') = []"
    using extract_ips_distinct_valid [of "JStr ''/ip4/1.2.3.4''"] no_list by blast
  with run valid no_list show ?thesis
    by blast
qed

subsection \<open>Fetchers\<close>

text \<open>
  Claim C7. \<^verbatim>\<open>APIUtils.make_request\<close> does not raise when the exchange fails with an
  exception of class \<^verbatim>\<open>Exception\<close> (a transport error, an HTTP error status, a body that is
  not JSON, or any other such error): for every request function, URL and method, a
  successful exchange returns the decoded body and prints nothing, and a failed one prints
  one line and returns \<^verbatim>\<open>None\<close>.
\<close>

theorem make_request_never_raises:
  assumes "\<forall>e. http_exchange (request method url) = Inl e \<longrightarrow> is_exception e"
  shows "case http_exchange (request method url) of
           Inr j \<Rightarrow> make_request request url method = ([], Inr j)
         | Inl e \<Rightarrow> \<exists>line. make_request request url method = ([line], Inr JNull)"
  using assms by (cases "http_exchange (request method url)") (auto simp: make_request_def)

theorem make_request_never_raises_witness:
  "make_request (\<lambda>method url. Raise (Exc TransportError ''timed out''))
       ''https://bitnodes.io/api/v1/snapshots/latest/'' ''GET'' =
     ([''API request error: timed out''], Inr JNull) \<and>
   make_request (\<lambda>method url. Return \<lparr>status_code = 200,
         json_body = Raise (Exc PlainJSONDecodeError ''Expecting value'')\<rparr>)
       ''https://bitnodes.io/api/v1/snapshots/latest/'' ''GET'' =
     ([''Unexpected error: Expecting value''], Inr JNull)"
proof -
  let ?down = "\<lambda>(method :: string) (url :: string). (Raise (Exc TransportError ''timed out'') :: response outcome)"
  let ?garbled = "\<lambda>(method :: string) (url :: string). Return \<lparr>status_code = 200,
         json_body = Raise (Exc PlainJSONDecodeError ''Expecting value'')\<rparr>"
  let ?url = "''https://bitnodes.io/api/v1/snapshots/latest/''"
  have d: "\<forall>e. http_exchange (?down ''GET'' ?url) = Inl e \<longrightarrow> is_exception e"
    by (simp add: http_exchange_def)
  have g: "\<forall>e. http_exchange (?garbled ''GET'' ?url) = Inl e \<longrightarrow> is_exception e"
    by (simp add: http_exchange_def raise_for_status_def)
  from make_request_never_raises [of ?down "''GET''" ?url] d
    make_request_never_raises [of ?garbled "''GET''" ?url] g
  show ?thesis
    by (simp add: make_request_def http_exchange_def raise_for_status_def)
qed

lemmas loop3 = make_request_loop.simps [where retries = 3 and attempt = 0]
  make_request_loop.simps [where retries = 3 and attempt = 1]
  make_request_loop.simps [where retries = 3 and attempt = 2]
  make_request_loop.simps [where retries = 3 and attempt = 3]


lemma fetcher_calls_sleeps:
  "length (calls (fst (fetcher_make_request request url))) \<le> 3 \<and>
   sleeps (fst (fetcher_make_request request url)) \<in> {[], [1], [1, 2]}"
  unfolding fetcher_make_request_def
  by (auto simp: loop3 simp del: One_nat_def split: sum.splits prod.splits)


lemma loop_last_failure:
  assumes "http_exchange (request 2) = Inl e" "is_request_exception e"
  shows "make_request_loop request url 3 2 =
           ([Call 2, LogError (''Request error for '' @ url @ '': '' @ message e)], Inr JNull)"
  by (subst make_request_loop.simps) (simp add: assms)

lemma loop_first_failure:
  assumes "http_exchange (request 0) = Inl e" "is_request_exception e"
  shows "make_request_loop request url 3 0 =
           (Call 0 # Sleep 1 # fst (make_request_loop request url 3 1),
            snd (make_request_loop request url 3 1))"
  apply (subst make_request_loop.simps)
  using assms apply (simp add: numeral_2_eq_2 numeral_3_eq_3 split: prod.splits)
  done

lemma loop_second_failure:
  assumes "http_exchange (request 1) = Inl e" "is_request_exception e"
  shows "make_request_loop request url 3 1 =
           (Call 1 # Sleep 2 # fst (make_request_loop request url 3 2),
            snd (make_request_loop request url 3 2))"
  apply (subst make_request_loop.simps)
  using assms apply (simp add: numeral_2_eq_2 numeral_3_eq_3 split: prod.splits)
  done

lemma fetcher_three_failures:
  assumes "\<forall>attempt < 3. \<exists>e. http_exchange (request attempt) = Inl e \<and> is_request_exception e"
  shows "\<exists>e. http_exchange (request 2) = Inl e \<and>
           fetcher_make_request request url =
             ([Call 0, Sleep 1, Call 1, Sleep 2, Call 2,
               LogError (''Request error for '' @ url @ '': '' @ message e)], Inr JNull)"
proof -
  from assms have "\<exists>e. http_exchange (request 0) = Inl e \<and> is_request_exception e"
    by simp
  then obtain e0 where e0: "http_exchange (request 0) = Inl e0" "is_request_exception e0"
    by (elim exE conjE)
  from assms have "\<exists>e. http_exchange (request 1) = Inl e \<and> is_request_exception e"
    by simp
  then obtain e1 where e1: "http_exchange (request 1) = Inl e1" "is_request_exception e1"
    by (elim exE conjE)
  from assms have "\<exists>e. http_exchange (request 2) = Inl e \<and> is_request_exception e"
    by simp
  then obtain e2 where e2: "http_exchange (request 2) = Inl e2" "is_request_exception e2"
    by (elim exE conjE)
  have l2: "make_request_loop request url 3 2 =
          ([Call 2, LogError (''Request error for '' @ url @ '': '' @ message e2)], Inr JNull)"
    using e2 by (rule loop_last_failure [where request = request])
  have l1: "make_request_loop request url 3 1 =
          ([Call 1, Sleep 2, Call 2,
            LogError (''Request error for '' @ url @ '': '' @ message e2)], Inr JNull)"
    using loop_second_failure [where request = request and url = url, OF e1] l2 by simp
  have l0: "make_request_loop request url 3 0 =
          ([Call 0, Sleep 1, Call 1, Sleep 2, Call 2,
            LogError (''Request error for '' @ url @ '': '' @ message e2)], Inr JNull)"
    using loop_first_failure [where request = request and url = url, OF e0] l1 by simp
  show ?thesis
    unfolding fetcher_make_request_def using e2(1) l0 by (intro exI [of _ e2] conjI)
qed

text \<open>
  Claim C8. \<^verbatim>\<open>BlockchainNodesFetcher._make_request\<close> calls \<^verbatim>\<open>requests.request\<close> at most three
  times; the pauses it makes are none, or one second, or one second and then two seconds;
  and when all three calls fail with a \<^verbatim>\<open>RequestException\<close> it calls three times, pauses one
  and two seconds in between, logs the third failure and returns \<^verbatim>\<open>None\<close>.
\<close>

theorem fetcher_make_request_bounded_retry:
  "length (calls (fst (fetcher_make_request request url))) \<le> 3 \<and>
   sleeps (fst (fetcher_make_request request url)) \<in> {[], [1], [1, 2]} \<and>
   ((\<forall>attempt < 3. \<exists>e. http_exchange (request attempt) = Inl e \<and> is_request_exception e) \<longrightarrow>
      (\<exists>e. http_exchange (request 2) = Inl e \<and>
           fetcher_make_request request url =
             ([Call 0, Sleep 1, Call 1, Sleep 2, Call 2,
               LogError (''Request error for '' @ url @ '': '' @ message e)], Inr JNull)))"
  using fetcher_calls_sleeps [of request url] fetcher_three_failures [of request url]
  by blast


theorem fetcher_make_request_bounded_retry_witness:
  "fetcher_make_request (\<lambda>attempt. Raise (Exc TransportError ''timed out''))
       ''https://services.tzkt.io/v1/nodes/stats'' =
     ([Call 0, Sleep 1, Call 1, Sleep 2, Call 2,
       LogError ''Request error for https://services.tzkt.io/v1/nodes/stats: timed out''],
      Inr JNull)"
proof -
  let ?down = "\<lambda>attempt :: nat. (Raise (Exc TransportError ''timed out'') :: response outcome)"
  let ?url = "''https://services.tzkt.io/v1/nodes/stats''"
  have fails: "\<forall>attempt < 3. \<exists>e. http_exchange (?down attempt) = Inl e \<and> is_request_exception e"
    by (simp add: http_exchange_def)
  have "\<exists>e. http_exchange (?down 2) = Inl e \<and>
           fetcher_make_request ?down ?url =
             ([Call 0, Sleep 1, Call 1, Sleep 2, Call 2,
               LogError (''Request error for '' @ ?url @ '': '' @ message e)], Inr JNull)"
    using fetcher_make_request_bounded_retry [of ?down ?url, THEN conjunct2, THEN conjunct2]
      fails by (rule mp)
  then obtain e where ex: "http_exchange (?down 2) = Inl e" and
    run: "fetcher_make_request ?down ?url =
      ([Call 0, Sleep 1, Call 1, Sleep 2, Call 2,
        LogError (''Request error for '' @ ?url @ '': '' @ message e)], Inr JNull)"
    by (elim exE conjE)
  from ex have "e = Exc TransportError ''timed out''"
    by (simp add: http_exchange_def)
  with run show ?thesis
    by simp
qed

subsection \<open>Aggregation\<close>

lemma total_count_counter_add: "total_count (counter_add key counts) = Suc (total_count counts)"
  by (induction counts) (auto simp: total_count_def)

lemma count_countries_bound:
  "total_count (count_countries nodes counts) \<le> total_count counts + length nodes"
proof (induction nodes arbitrary: counts)
  case Nil
  show ?case by simp
next
  case (Cons info nodes)
  have "total_count (count_countries nodes counts) \<le> total_count counts + length nodes"
    by (rule Cons.IH)
  moreover have "total_count (count_countries nodes (counter_add c counts))
      \<le> Suc (total_count counts) + length nodes" for c
    using Cons.IH [of "counter_add c counts"] by (simp add: total_count_counter_add)
  ultimately show ?case
    by (auto split: option.splits intro: le_SucI)
qed

lemma count_hosting_ips_bound:
  "total_count (count_hosting_ips reader ips counts) \<le> total_count counts + length ips"
proof (induction ips arbitrary: counts)
  case Nil
  show ?case by simp
next
  case (Cons ip ips)
  have "total_count (count_hosting_ips reader ips counts) \<le> total_count counts + length ips"
    by (rule Cons.IH)
  moreover have "total_count (count_hosting_ips reader ips (counter_add c counts))
      \<le> Suc (total_count counts) + length ips" for c
    using Cons.IH [of "counter_add c counts"] by (simp add: total_count_counter_add)
  ultimately show ?case
    by (auto split: outcome.splits option.splits intro: le_SucI)
qed

lemma count_hosting_lines_bound:
  "total_count (count_hosting_lines reader lines counts)
     \<le> total_count counts + extracted_addresses lines"
proof (induction lines arbitrary: counts)
  case Nil
  show ?case by simp
next
  case (Cons line lines)
  show ?case
  proof (cases "line_ips line")
    case (Inl e)
    then show ?thesis by simp
  next
    case (Inr ips)
    have "total_count (count_hosting_lines reader lines (count_hosting_ips reader ips counts))
        \<le> total_count (count_hosting_ips reader ips counts) + extracted_addresses lines"
      by (rule Cons.IH)
    also have "\<dots> \<le> total_count counts + length ips + extracted_addresses lines"
      using count_hosting_ips_bound [of reader ips counts] by simp
    finally show ?thesis
      using Inr by simp
  qed
qed

lemma sorted_total_count:
  assumes "sorts_by_count_descending srt"
  shows "total_count (srt t) = total_count t"
proof -
  from assms have "mset (srt t) = mset t"
    by (simp add: sorts_by_count_descending_def)
  then have "mset (map snd (srt t)) = mset (map snd t)"
    by (metis mset_map)
  then have "sum_mset (mset (map snd (srt t))) = sum_mset (mset (map snd t))"
    by simp
  then show ?thesis
    by (simp only: total_count_def sum_mset_sum_list)
qed


lemma mset_insert_row: "mset (insert_row row t) = add_mset row (mset t)"
  by (induction t) auto

lemma set_insert_row: "set (insert_row row t) = insert row (set t)"
  by (induction t) auto

lemma sorted_insert_row:
  "sorted_wrt (\<lambda>row row'. snd row \<ge> snd row') t \<Longrightarrow>
   sorted_wrt (\<lambda>row row'. snd row \<ge> snd row') (insert_row r t)"
  by (induction t) (auto simp: set_insert_row)

lemma insertion_sort_desc_sorts: "sorts_by_count_descending insertion_sort_desc"
proof -
  have "mset (insertion_sort_desc t) = mset t" for t
    by (induction t) (simp_all add: mset_insert_row)
  moreover have "sorted_wrt (\<lambda>row row'. snd row \<ge> snd row') (insertion_sort_desc t)" for t
    by (induction t) (simp_all add: sorted_insert_row)
  ultimately show ?thesis
    by (simp add: sorts_by_count_descending_def)
qed

lemma sorted_adjacent:
  assumes "sorted_wrt (\<lambda>row row'. snd row \<ge> snd row') t"
  shows "adjacent_rows_descending t"
  unfolding adjacent_rows_descending_def
proof (intro allI impI)
  fix i
  assume "i + 1 < length t"
  with assms show "snd (t ! i) \<ge> snd (t ! (i + 1))"
    using sorted_wrt_nth_less [of "\<lambda>row row'. snd row \<ge> snd row'" t i "i + 1"] by simp
qed

lemma srt_sorted:
  "sorts_by_count_descending srt \<Longrightarrow> sorted_wrt (\<lambda>row row'. snd row \<ge> snd row') (srt t)"
  by (simp add: sorts_by_count_descending_def)

text \<open>
  Claim C1, as amended. For every sort that keeps the promise of \<^verbatim>\<open>sort_values\<close>: the counts
  of the country table of \<^verbatim>\<open>BitcoinAnalyzer.process_data\<close> add up to at most the number of
  node records, and the counts of the table of
  \<^verbatim>\<open>EthereumAnalyzer.process_hosting_distribution\<close> add up to at most the number of addresses
  that \<^verbatim>\<open>_extract_ips\<close> yields over the lines read, a line with several addresses being
  counted once for each of them.
\<close>

theorem counts_bounded_by_classified_items:
  assumes "sorts_by_count_descending srt"
  shows "total_count (process_data_geographic srt nodes) \<le> length nodes \<and>
         total_count (process_hosting_distribution srt reader raw_data)
           \<le> (case raw_data of None \<Rightarrow> 0 | Some lines \<Rightarrow> extracted_addresses lines)"
proof
  have "total_count (count_countries nodes []) \<le> length nodes"
    using count_countries_bound [of nodes "[]"] by (simp add: total_count_def)
  then show "total_count (process_data_geographic srt nodes) \<le> length nodes"
    by (simp add: process_data_geographic_def sorted_total_count [OF assms])
next
  have "total_count (count_hosting_lines r lines []) \<le> extracted_addresses lines" for r lines
    using count_hosting_lines_bound [of r lines "[]"] by (simp add: total_count_def)
  moreover have "total_count [] = 0"
    by (simp add: total_count_def)
  ultimately show "total_count (process_hosting_distribution srt reader raw_data)
           \<le> (case raw_data of None \<Rightarrow> 0 | Some lines \<Rightarrow> extracted_addresses lines)"
    by (simp add: process_hosting_distribution_def sorted_total_count [OF assms]
          split: option.splits)
qed

theorem counts_bounded_by_classified_items_witness:
  "total_count (process_data_geographic insertion_sort_desc
      [\<lparr>version_string = Some ''/Satoshi:25.0.0/'', country = Some ''DE''\<rparr>,
       \<lparr>version_string = None, country = None\<rparr>,
       \<lparr>version_string = Some ''/Satoshi:25.0.0/'', country = Some ''TOR''\<rparr>]) \<le> 3 \<and>
   total_count (process_hosting_distribution insertion_sort_desc (Some hetzner_reader)
      (Some [Decoded (JObj [(''Maddrs'',
         JArr [JStr ''/ip4/1.2.3.4/tcp/30303'', JStr ''/ip4/5.6.7.8/tcp/30303''])])])) \<le> 2"
proof -
  let ?lines = "[Decoded (JObj [(''Maddrs'',
         JArr [JStr ''/ip4/1.2.3.4/tcp/30303'', JStr ''/ip4/5.6.7.8/tcp/30303''])])]"
  have "extracted_addresses ?lines = 2"
    by code_simp
  with counts_bounded_by_classified_items [OF insertion_sort_desc_sorts,
      of "[\<lparr>version_string = Some ''/Satoshi:25.0.0/'', country = Some ''DE''\<rparr>,
       \<lparr>version_string = None, country = None\<rparr>,
       \<lparr>version_string = Some ''/Satoshi:25.0.0/'', country = Some ''TOR''\<rparr>]"
      "Some hetzner_reader" "Some ?lines"]
  show ?thesis by simp
qed

text \<open>
  The bound of claim C1 by the number of node records fails for the Ethereum hosting
  table: one line with two addresses gives a table whose counts add up to two.
\<close>

theorem hosting_counts_exceed_records:
  "\<not> total_count (process_hosting_distribution insertion_sort_desc (Some hetzner_reader)
      (Some [Decoded (JObj [(''Maddrs'',
         JArr [JStr ''/ip4/1.2.3.4/tcp/30303'', JStr ''/ip4/5.6.7.8/tcp/30303''])])]))
     \<le> length [Decoded (JObj [(''Maddrs'',
         JArr [JStr ''/ip4/1.2.3.4/tcp/30303'', JStr ''/ip4/5.6.7.8/tcp/30303''])])]"
  by code_simp

text \<open>
  Claim C2 fails for the hosting table of the Ethereum Classic script: the row \<^verbatim>\<open>Others\<close>
  is put after the sorted rows, and its count can be larger than the count before it.
\<close>

theorem etc_hosting_table_not_descending:
  "\<not> adjacent_rows_descending
       (etc_process_hosting_distribution insertion_sort_desc
          (replicate 26 (node_of_org ''AS1 Alpha'') @ replicate 2 (node_of_org ''AS2 Beta'') @
           [node_of_org ''AS3 Gamma'', node_of_org ''AS4 Delta'', node_of_org ''AS5 Epsilon'']))"
proof
  let ?nodes = "replicate 26 (node_of_org ''AS1 Alpha'') @ replicate 2 (node_of_org ''AS2 Beta'') @
           [node_of_org ''AS3 Gamma'', node_of_org ''AS4 Delta'', node_of_org ''AS5 Epsilon'']"
  have run: "etc_process_hosting_distribution insertion_sort_desc ?nodes =
      [(''Alpha'', 26), (''Beta'', 2), (''Others'', 3)]"
    by code_simp
  assume "adjacent_rows_descending (etc_process_hosting_distribution insertion_sort_desc ?nodes)"
  then have "\<forall>i. i + 1 < length [(''Alpha'', 26 :: nat), (''Beta'', 2), (''Others'', 3)] \<longrightarrow>
      snd ([(''Alpha'', 26 :: nat), (''Beta'', 2), (''Others'', 3)] ! i)
        \<ge> snd ([(''Alpha'', 26 :: nat), (''Beta'', 2), (''Others'', 3)] ! (i + 1))"
    unfolding run adjacent_rows_descending_def .
  then have "1 + 1 < length [(''Alpha'', 26 :: nat), (''Beta'', 2), (''Others'', 3)] \<longrightarrow>
      snd ([(''Alpha'', 26 :: nat), (''Beta'', 2), (''Others'', 3)] ! 1)
        \<ge> snd ([(''Alpha'', 26 :: nat), (''Beta'', 2), (''Others'', 3)] ! (1 + 1))"
    by (rule spec)
  then show False
    by simp
qed

text \<open>
  Claim C2, as amended. For every sort that keeps the promise of \<^verbatim>\<open>sort_values\<close>, in each table
  that the aggregators of the Bitcoin and Ethereum scripts produce the count of a row is at
  least the count of the next row, also after the filter \<^verbatim>\<open>df['Count'] > 1\<close> of the Bitcoin
  client table; the hosting table of the Ethereum Classic script is ordered in this way up
  to its last row, the row \<^verbatim>\<open>Others\<close> put after the others.
\<close>

theorem tables_adjacent_rows_descending:
  assumes "sorts_by_count_descending srt"
  shows "adjacent_rows_descending (process_client_distribution srt data) \<and>
         adjacent_rows_descending (process_data_geographic srt nodes) \<and>
         adjacent_rows_descending (process_geographic_distribution srt country_names) \<and>
         adjacent_rows_descending (process_hosting_distribution srt reader raw_data) \<and>
         adjacent_rows_descending (butlast (etc_process_hosting_distribution srt etc_data))"
proof (intro conjI)
  have empty: "adjacent_rows_descending []"
    by (simp add: adjacent_rows_descending_def)
  have sorted: "adjacent_rows_descending (srt t)" for t
    by (rule sorted_adjacent [OF srt_sorted [OF assms]])
  have filtered: "adjacent_rows_descending (filter P (srt t))" for P t
    by (rule sorted_adjacent [OF sorted_wrt_filter [OF srt_sorted [OF assms]]])
  show "adjacent_rows_descending (process_client_distribution srt data)"
    by (cases data) (simp_all only: process_client_distribution_def option.case empty filtered)
  show "adjacent_rows_descending (process_data_geographic srt nodes)"
    by (simp only: process_data_geographic_def sorted)
  show "adjacent_rows_descending (process_geographic_distribution srt country_names)"
    by (cases country_names)
      (simp_all only: process_geographic_distribution_def option.case empty sorted)
  show "adjacent_rows_descending (process_hosting_distribution srt reader raw_data)"
    by (cases raw_data; cases reader)
      (simp_all only: process_hosting_distribution_def option.case empty sorted)
  show "adjacent_rows_descending (butlast (etc_process_hosting_distribution srt etc_data))"
    by (cases "etc_count_hosting etc_data [] = []")
      (simp_all only: etc_process_hosting_distribution_def Let_def if_True if_False simp_thms
         butlast_snoc butlast.simps empty filtered)
qed

theorem tables_adjacent_rows_descending_witness:
  "process_client_distribution insertion_sort_desc
     (Some [\<lparr>version_string = Some ''/btcwire:0.5.0/btcd:0.23.3/'', country = Some ''US''\<rparr>,
            \<lparr>version_string = Some ''/Satoshi:25.0.0/Knots:20230816/'', country = Some ''FR''\<rparr>,
            \<lparr>version_string = Some ''/Satoshi:25.0.0/'', country = Some ''DE''\<rparr>,
            \<lparr>version_string = Some ''/Satoshi:24.0.1/'', country = Some ''DE''\<rparr>,
            \<lparr>version_string = Some ''/btcwire:0.5.0/btcd:0.24.0/'', country = None\<rparr>,
            \<lparr>version_string = Some ''/Satoshi:26.0.0/'', country = Some ''TOR''\<rparr>]) =
     [(''Bitcoin Core'', 3), (''btcd'', 2)] \<and>
   adjacent_rows_descending [(''Bitcoin Core'', 3), (''btcd'', 2)]"
proof -
  let ?data = "Some [\<lparr>version_string = Some ''/btcwire:0.5.0/btcd:0.23.3/'', country = Some ''US''\<rparr>,
            \<lparr>version_string = Some ''/Satoshi:25.0.0/Knots:20230816/'', country = Some ''FR''\<rparr>,
            \<lparr>version_string = Some ''/Satoshi:25.0.0/'', country = Some ''DE''\<rparr>,
            \<lparr>version_string = Some ''/Satoshi:24.0.1/'', country = Some ''DE''\<rparr>,
            \<lparr>version_string = Some ''/btcwire:0.5.0/btcd:0.24.0/'', country = None\<rparr>,
            \<lparr>version_string = Some ''/Satoshi:26.0.0/'', country = Some ''TOR''\<rparr>]"
  have run: "process_client_distribution insertion_sort_desc ?data =
      [(''Bitcoin Core'', 3), (''btcd'', 2)]"
    by code_simp
  have "adjacent_rows_descending (process_client_distribution insertion_sort_desc ?data)"
    using tables_adjacent_rows_descending [OF insertion_sort_desc_sorts] by (rule conjunct1)
  then show ?thesis
    by (simp only: run simp_thms)
qed

subsection \<open>Rows of equal count\<close>

text \<open>
  The promise of \<^verbatim>\<open>sort_values\<close> leaves the order of two rows of equal count open: of two
  sorts that keep it, one leaves two such rows in the order of their insertion and the
  other exchanges them. Which of the two the tables of the aggregators show is decided in
  pandas.
\<close>

lemma mset_insert_row_last: "mset (insert_row_last row t) = add_mset row (mset t)"
  by (induction t) auto

lemma set_insert_row_last: "set (insert_row_last row t) = insert row (set t)"
  by (induction t) auto

lemma sorted_insert_row_last:
  "sorted_wrt (\<lambda>row row'. snd row \<ge> snd row') t \<Longrightarrow>
   sorted_wrt (\<lambda>row row'. snd row \<ge> snd row') (insert_row_last r t)"
  by (induction t) (auto simp: set_insert_row_last)

lemma insertion_sort_desc_last_sorts: "sorts_by_count_descending insertion_sort_desc_last"
proof -
  have "mset (insertion_sort_desc_last t) = mset t" for t
    by (induction t) (simp_all add: mset_insert_row_last)
  moreover have "sorted_wrt (\<lambda>row row'. snd row \<ge> snd row') (insertion_sort_desc_last t)" for t
    by (induction t) (simp_all add: sorted_insert_row_last)
  ultimately show ?thesis
    by (simp add: sorts_by_count_descending_def)
qed

lemma tie_order_open:
  "sorts_by_count_descending insertion_sort_desc \<and>
   sorts_by_count_descending insertion_sort_desc_last \<and>
   process_data_geographic insertion_sort_desc
     [\<lparr>version_string = None, country = Some ''DE''\<rparr>,
      \<lparr>version_string = None, country = Some ''FR''\<rparr>] = [(''DE'', 1), (''FR'', 1)] \<and>
   process_data_geographic insertion_sort_desc_last
     [\<lparr>version_string = None, country = Some ''DE''\<rparr>,
      \<lparr>version_string = None, country = Some ''FR''\<rparr>] = [(''FR'', 1), (''DE'', 1)]"
proof -
  have "process_data_geographic insertion_sort_desc
     [\<lparr>version_string = None, country = Some ''DE''\<rparr>,
      \<lparr>version_string = None, country = Some ''FR''\<rparr>] = [(''DE'', 1), (''FR'', 1)]"
    by code_simp
  moreover have "process_data_geographic insertion_sort_desc_last
     [\<lparr>version_string = None, country = Some ''DE''\<rparr>,
      \<lparr>version_string = None, country = Some ''FR''\<rparr>] = [(''FR'', 1), (''DE'', 1)]"
    by code_simp
  ultimately show ?thesis
    using insertion_sort_desc_sorts insertion_sort_desc_last_sorts by (intro conjI)
qed

subsection \<open>Hosting classification of the Solana script\<close>

lemma startswith_iff: "startswith s p \<longleftrightarrow> (\<exists>post. s = p @ post)"
  by (induction s p rule: startswith.induct) auto

lemma py_in_iff: "py_in sub s \<longleftrightarrow> (\<exists>pre post. s = pre @ sub @ post)"
proof (induction s)
  case Nil
  show ?case by auto
next
  case (Cons c cs)
  show ?case
  proof
    assume "py_in sub (c # cs)"
    then consider "startswith (c # cs) sub" | "py_in sub cs" by auto
    then show "\<exists>pre post. c # cs = pre @ sub @ post"
    proof cases
      case 1
      then obtain post where "c # cs = sub @ post" by (auto simp: startswith_iff)
      then have "c # cs = [] @ sub @ post" by simp
      then show ?thesis by blast
    next
      case 2
      with Cons.IH obtain pre post where "cs = pre @ sub @ post" by auto
      then have "c # cs = (c # pre) @ sub @ post" by simp
      then show ?thesis by blast
    qed
  next
    assume "\<exists>pre post. c # cs = pre @ sub @ post"
    then obtain pre post where eq: "c # cs = pre @ sub @ post" by auto
    show "py_in sub (c # cs)"
    proof (cases pre)
      case Nil
      with eq have "startswith (c # cs) sub" by (auto simp: startswith_iff)
      then show ?thesis by simp
    next
      case (Cons d pre')
      with eq have "cs = pre' @ sub @ post" by simp
      with Cons.IH have "py_in sub cs" by blast
      then show ?thesis by simp
    qed
  qed
qed

lemma match_provider_find:
  "match_provider providers org =
     map_option fst
       (find (\<lambda>(provider, variations). \<exists>v \<in> set variations. py_in (lower v) (lower org))
          providers)"
  by (induction providers org rule: match_provider.induct) (simp_all add: list_ex_iff)

lemma match_provider_name:
  "match_provider providers org = Some provider \<Longrightarrow> provider \<in> fst ` set providers"
  by (induction providers org rule: match_provider.induct) (auto split: if_splits)

lemma letter_pairs_lower:
  "\<forall>p \<in> set (zip ''ABCDEFGHIJKLMNOPQRSTUVWXYZ'' ''abcdefghijklmnopqrstuvwxyz'').
     lower_char (fst p) = snd p \<and> lower_char (snd p) = snd p"
  by code_simp

lemma letter_pairs_inj:
  "\<forall>p \<in> set (zip ''ABCDEFGHIJKLMNOPQRSTUVWXYZ'' ''abcdefghijklmnopqrstuvwxyz'').
   \<forall>q \<in> set (zip ''ABCDEFGHIJKLMNOPQRSTUVWXYZ'' ''abcdefghijklmnopqrstuvwxyz'').
     snd p = snd q \<longrightarrow> fst p = fst q"
  by code_simp

lemma lower_char_same_letter: "lower_char c = lower_char d \<longleftrightarrow> same_letter c d"
proof
  let ?tbl = "zip ''ABCDEFGHIJKLMNOPQRSTUVWXYZ'' ''abcdefghijklmnopqrstuvwxyz''"
  assume eq: "lower_char c = lower_char d"
  show "same_letter c d"
  proof (cases "map_of ?tbl c")
    case None
    then have c: "lower_char c = c"
      by (simp only: lower_char_def option.case)
    show ?thesis
    proof (cases "map_of ?tbl d")
      case None
      then have "lower_char d = d"
        by (simp only: lower_char_def option.case)
      with c eq have "c = d"
        by (simp only:)
      then show ?thesis
        by (simp only: same_letter_def simp_thms)
    next
      case (Some l)
      then have "lower_char d = l"
        by (simp only: lower_char_def option.case)
      with c eq have "c = l"
        by (simp only:)
      moreover from Some have "(d, l) \<in> set ?tbl"
        by (rule map_of_SomeD)
      ultimately show ?thesis
        by (simp only: same_letter_def simp_thms)
    qed
  next
    case (Some l)
    then have cl: "(c, l) \<in> set ?tbl"
      by (rule map_of_SomeD)
    from Some have c: "lower_char c = l"
      by (simp only: lower_char_def option.case)
    show ?thesis
    proof (cases "map_of ?tbl d")
      case None
      then have "lower_char d = d"
        by (simp only: lower_char_def option.case)
      with c eq have "l = d"
        by (simp only:)
      with cl show ?thesis
        by (simp only: same_letter_def simp_thms)
    next
      case (Some l')
      then have dl: "(d, l') \<in> set ?tbl"
        by (rule map_of_SomeD)
      from Some have "lower_char d = l'"
        by (simp only: lower_char_def option.case)
      with c eq have l: "l = l'"
        by (simp only:)
      from letter_pairs_inj cl
      have "\<forall>q \<in> set ?tbl. snd (c, l) = snd q \<longrightarrow> fst (c, l) = fst q"
        by (rule bspec)
      from this dl have "snd (c, l) = snd (d, l') \<longrightarrow> fst (c, l) = fst (d, l')"
        by (rule bspec)
      with l have "c = d"
        by (simp only: fst_conv snd_conv simp_thms)
      then show ?thesis
        by (simp only: same_letter_def simp_thms)
    qed
  qed
next
  let ?tbl = "zip ''ABCDEFGHIJKLMNOPQRSTUVWXYZ'' ''abcdefghijklmnopqrstuvwxyz''"
  assume "same_letter c d"
  then consider "c = d" | "(c, d) \<in> set ?tbl" | "(d, c) \<in> set ?tbl"
    unfolding same_letter_def by (elim disjE)
  then show "lower_char c = lower_char d"
  proof cases
    case 1
    then show ?thesis by (simp only:)
  next
    case 2
    with letter_pairs_lower
    have "lower_char (fst (c, d)) = snd (c, d) \<and> lower_char (snd (c, d)) = snd (c, d)"
      by (rule bspec)
    then show ?thesis by (simp only: fst_conv snd_conv)
  next
    case 3
    with letter_pairs_lower
    have "lower_char (fst (d, c)) = snd (d, c) \<and> lower_char (snd (d, c)) = snd (d, c)"
      by (rule bspec)
    then show ?thesis by (simp only: fst_conv snd_conv)
  qed
qed

lemma lower_eq_iff: "lower s = lower t \<longleftrightarrow> same_ignoring_case s t"
  unfolding lower_def same_ignoring_case_def
proof (induction s arbitrary: t)
  case Nil
  show ?case by auto
next
  case (Cons c s)
  show ?case
    by (cases t) (simp_all add: Cons.IH lower_char_same_letter)
qed

lemma py_in_lower_iff: "py_in (lower sub) (lower s) \<longleftrightarrow> occurs_ignoring_case sub s"
proof
  assume "py_in (lower sub) (lower s)"
  then have "\<exists>pre' post'. lower s = pre' @ lower sub @ post'"
    by (simp only: py_in_iff)
  then obtain pre' post' where "lower s = pre' @ (lower sub @ post')"
    by (elim exE)
  then have "map lower_char s = pre' @ (lower sub @ post')"
    by (simp only: lower_def)
  then have "\<exists>pre rest. s = pre @ rest \<and> pre' = map lower_char pre \<and>
      lower sub @ post' = map lower_char rest"
    by (rule map_eq_append_conv [THEN iffD1])
  then obtain pre rest where s: "s = pre @ rest" and "map lower_char rest = lower sub @ post'"
    by (elim exE conjE) (rule that, assumption, rule sym)
  then have "\<exists>mid post. rest = mid @ post \<and> lower sub = map lower_char mid \<and>
      post' = map lower_char post"
    by (intro map_eq_append_conv [THEN iffD1])
  then obtain mid post where rest: "rest = mid @ post" and mid: "lower sub = map lower_char mid"
    by (elim exE conjE)
  from mid have "lower mid = lower sub"
    by (simp only: lower_def)
  then have "same_ignoring_case mid sub"
    by (simp only: lower_eq_iff)
  with s rest have "s = pre @ mid @ post \<and> same_ignoring_case mid sub"
    by (simp only: simp_thms)
  then show "occurs_ignoring_case sub s"
    unfolding occurs_ignoring_case_def by (intro exI)
next
  assume "occurs_ignoring_case sub s"
  then obtain pre mid post where s: "s = pre @ mid @ post" and "same_ignoring_case mid sub"
    unfolding occurs_ignoring_case_def by (elim exE conjE)
  then have "lower mid = lower sub"
    by (simp only: lower_eq_iff)
  with s have "lower s = lower pre @ lower sub @ lower post"
    by (simp only: lower_def map_append)
  then have "\<exists>pre' post'. lower s = pre' @ lower sub @ post'"
    by (intro exI)
  then show "py_in (lower sub) (lower s)"
    by (simp only: py_in_iff)
qed


lemma startswith_self: "startswith s s"
  by (simp add: startswith_iff)

lemma replace_absent: "\<not> py_in old s \<Longrightarrow> replace old new s = s"
  by (induction s) auto

lemma replace_trailing:
  assumes "old = sp # w" and "sp \<notin> set w" and "\<not> py_in old name"
  shows "replace old [] (name @ old) = name"
  using assms(3)
proof (induction name)
  case Nil
  have "replace old [] (sp # w) = replace old [] (drop (length old) (sp # w))"
    using assms(1) startswith_self [of old] by (simp del: startswith.simps)
  then show ?case
    using assms(1) by simp
next
  case (Cons c cs)
  from Cons.prems have no_start: "\<not> startswith (c # cs) old" and rest: "\<not> py_in old cs"
    by simp_all
  have "\<not> startswith ((c # cs) @ old) old"
  proof
    assume "startswith ((c # cs) @ old) old"
    then obtain post where "(c # cs) @ old = old @ post"
      by (auto simp: startswith_iff)
    then obtain us where "c # cs = old @ us \<and> us @ old = post \<or> (c # cs) @ us = old \<and> old = us @ post"
      unfolding append_eq_append_conv2 by blast
    then show False
    proof
      assume "c # cs = old @ us \<and> us @ old = post"
      then have "startswith (c # cs) old"
        by (auto simp: startswith_iff)
      with no_start show False ..
    next
      assume both: "(c # cs) @ us = old \<and> old = us @ post"
      show False
      proof (cases us)
        case Nil
        with both have "c # cs = old @ []"
          by simp
        then have "startswith (c # cs) old"
          unfolding startswith_iff by blast
        with no_start show False ..
      next
        case (Cons u us')
        from both assms(1) have "sp # w = c # (cs @ us)"
          by simp
        then have "w = cs @ us"
          by simp
        with Cons have "u \<in> set w"
          by simp
        moreover from both assms(1) Cons have "sp # w = u # (us' @ post)"
          by simp
        then have "sp = u"
          by simp
        ultimately show False
          using assms(2) by simp
      qed
    qed
  qed
  then have "replace old [] ((c # cs) @ old) = c # replace old [] (cs @ old)"
    by simp
  with Cons.IH [OF rest] show ?case
    by simp
qed

lemma py_in_append_cases:
  assumes "old = sp # w" and "sp \<notin> set w" and "b = sp # v" and "py_in old (a @ b)"
  shows "py_in old a \<or> py_in old b"
proof -
  from assms(4) obtain pre post where "a @ b = pre @ (old @ post)"
    unfolding py_in_iff by auto
  then obtain us where
    "a = pre @ us \<and> us @ b = old @ post \<or> a @ us = pre \<and> b = us @ (old @ post)"
    unfolding append_eq_append_conv2 by blast
  then show ?thesis
  proof
    assume "a @ us = pre \<and> b = us @ (old @ post)"
    then have "py_in old b"
      unfolding py_in_iff by auto
    then show ?thesis ..
  next
    assume first: "a = pre @ us \<and> us @ b = old @ post"
    then obtain us2 where
      "us = old @ us2 \<and> us2 @ b = post \<or> us @ us2 = old \<and> b = us2 @ post"
      unfolding append_eq_append_conv2 by blast
    then show ?thesis
    proof
      assume "us = old @ us2 \<and> us2 @ b = post"
      with first have "a = pre @ old @ us2"
        by simp
      then have "py_in old a"
        unfolding py_in_iff by blast
      then show ?thesis ..
    next
      assume second: "us @ us2 = old \<and> b = us2 @ post"
      show ?thesis
      proof (cases us)
        case Nil
        with second have "b = [] @ old @ post"
          by simp
        then have "py_in old b"
          unfolding py_in_iff by blast
        then show ?thesis ..
      next
        case (Cons u us')
        show ?thesis
        proof (cases us2)
          case Nil
          with second first have "a = pre @ old @ []"
            by simp
          then have "py_in old a"
            unfolding py_in_iff by blast
          then show ?thesis ..
        next
          case (Cons x xs)
          with second assms(3) have "x = sp"
            by simp
          moreover from second \<open>us = u # us'\<close> Cons assms(1) have "x \<in> set w"
            by auto
          ultimately show ?thesis
            using assms(2) by simp
        qed
      qed
    qed
  qed
qed

lemma fold_absent:
  "(\<forall>old \<in> set olds. \<not> py_in old s) \<Longrightarrow> foldl (\<lambda>s old. replace old [] s) s olds = s"
  by (induction olds) (simp_all add: replace_absent)

lemma strip_clean:
  assumes "name = [] \<or> (\<not> is_space (hd name) \<and> \<not> is_space (last name))"
  shows "strip name = name"
proof (cases "name = []")
  case True
  then show ?thesis by (simp add: strip_def)
next
  case False
  with assms have "\<not> is_space (hd name)" "\<not> is_space (last name)"
    by simp_all
  with False have "dropWhile is_space name = name" "dropWhile is_space (rev name) = rev name"
    by (simp_all add: dropWhile_eq_self_iff hd_rev)
  then show ?thesis
    by (simp add: strip_def)
qed

lemma suffix_shape:
  "\<forall>sfx \<in> set corporate_suffixes. sfx \<noteq> [] \<and> hd sfx = CHR '' '' \<and> CHR '' '' \<notin> set (tl sfx)"
  by code_simp

lemma suffix_matrix:
  "\<forall>s \<in> set corporate_suffixes. \<forall>s' \<in> set corporate_suffixes. py_in s s' \<longrightarrow> s = s'"
  by code_simp

lemma suffixes_distinct: "distinct corporate_suffixes"
  by code_simp

lemma strip_suffixes_fold:
  "strip_suffixes org = strip (foldl (\<lambda>s old. replace old [] s) org corporate_suffixes)"
  by (simp add: strip_suffixes_def corporate_suffixes_def)

lemma free_of_suffixes_code:
  "free_of_suffixes name \<longleftrightarrow>
     (\<forall>sfx \<in> set corporate_suffixes. \<not> py_in sfx name) \<and>
     (name = [] \<or> (\<not> is_space (hd name) \<and> \<not> is_space (last name)))"
  by (simp only: free_of_suffixes_def occurs_def py_in_iff)

lemma strip_suffixes_free: "free_of_suffixes name \<Longrightarrow> strip_suffixes name = name"
  by (simp add: free_of_suffixes_code strip_suffixes_fold fold_absent strip_clean)

lemma strip_suffixes_trailing:
  assumes "sfx \<in> set corporate_suffixes" and "free_of_suffixes name"
  shows "strip_suffixes (name @ sfx) = name"
proof -
  let ?f = "\<lambda>s old. replace old [] s"
  from assms(2) have absent: "\<forall>old \<in> set corporate_suffixes. \<not> py_in old name"
    and trimmed: "name = [] \<or> (\<not> is_space (hd name) \<and> \<not> is_space (last name))"
    by (simp_all add: free_of_suffixes_code)
  from assms(1) obtain before after where split: "corporate_suffixes = before @ sfx # after"
    by (auto dest: split_list)
  have others: "sfx \<notin> set before"
    using suffixes_distinct unfolding split by simp
  have parts: "set before \<subseteq> set corporate_suffixes" "set after \<subseteq> set corporate_suffixes"
    unfolding split by auto
  have shape: "\<exists>w. old = CHR '' '' # w \<and> CHR '' '' \<notin> set w"
    if "old \<in> set corporate_suffixes" for old
  proof -
    from suffix_shape that
    have "old \<noteq> [] \<and> hd old = CHR '' '' \<and> CHR '' '' \<notin> set (tl old)"
      by (rule bspec)
    then have "old = CHR '' '' # tl old \<and> CHR '' '' \<notin> set (tl old)"
      by (cases old) simp_all
    then show ?thesis
      by (rule exI)
  qed
  from shape [OF assms(1)] obtain v where sfx: "sfx = CHR '' '' # v" "CHR '' '' \<notin> set v"
    by blast
  have "\<not> py_in old (name @ sfx)" if "old \<in> set before" for old
  proof
    assume inside: "py_in old (name @ sfx)"
    from that parts(1) have old: "old \<in> set corporate_suffixes"
      by (rule subsetD [rotated])
    from shape [OF old] obtain w where "old = CHR '' '' # w" "CHR '' '' \<notin> set w"
      by blast
    from py_in_append_cases [OF this sfx(1) inside] have "py_in old name \<or> py_in old sfx" .
    with absent old have "py_in old sfx"
      by blast
    with suffix_matrix old assms(1) have "old = sfx"
      by blast
    with that others show False
      by simp
  qed
  then have "foldl ?f (name @ sfx) before = name @ sfx"
    by (simp add: fold_absent)
  moreover have "replace sfx [] (name @ sfx) = name"
    using sfx absent assms(1) by (intro replace_trailing [of sfx "CHR '' ''" v]) auto
  moreover have "foldl ?f name after = name"
    using absent parts(2) by (intro fold_absent) blast
  ultimately have "foldl ?f (name @ sfx) corporate_suffixes = name"
    by (simp add: split)
  then show ?thesis
    using trimmed by (simp add: strip_suffixes_fold strip_clean)
qed


lemma excluded_words_lower: "\<forall>x \<in> set excluded_words. lower x = x"
  by code_simp

lemma excluded_iff:
  "list_ex (\<lambda>x. py_in x (lower org)) excluded_words \<longleftrightarrow>
     (\<exists>x \<in> set excluded_words. occurs_ignoring_case x org)"
proof -
  have "py_in x (lower org) \<longleftrightarrow> occurs_ignoring_case x org" if "x \<in> set excluded_words" for x
  proof -
    from excluded_words_lower that have "lower x = x"
      by (rule bspec)
    with py_in_lower_iff [of x org] show ?thesis
      by (simp only:)
  qed
  then show ?thesis
    unfolding list_ex_iff by (intro bex_cong refl)
qed

text \<open>
  Claim C4. For a looked-up organization name that is not empty, the key that
  \<^verbatim>\<open>SolanaAnalyzer.process_hosting_distribution\<close> counts is the category that the rule gives
  for the name with its suffixes removed: the first provider, in the order of
  \<^verbatim>\<open>known_providers\<close>, one of whose variations occurs in it as a substring, capital and small
  letters of the ASCII alphabet counting as the same; when there is no such provider, the
  name without its suffixes, unless one of the excluded words occurs in it in the same
  way, and then nothing is counted. Removing the suffixes takes a corporate suffix off the
  end of a name that is otherwise free of them, and leaves such a name as it is; so a name
  of this kind, with or without one suffix at its end, is classified by the rule applied
  to the name without the suffix.
\<close>

theorem hosting_key_first_provider_wins:
  assumes "org0 \<noteq> []"
  shows
    "hosting_key (Some org0) = category_by_rule (strip_suffixes org0) \<and>
     ((sfx \<in> set corporate_suffixes \<or> sfx = []) \<and> free_of_suffixes name \<longrightarrow>
        strip_suffixes (name @ sfx) = name) \<and>
     ((sfx \<in> set corporate_suffixes \<or> sfx = []) \<and> free_of_suffixes name \<and> org0 = name @ sfx \<longrightarrow>
        hosting_key (Some org0) = category_by_rule name)"
proof -
  let ?org = "strip_suffixes org0"
  let ?found = "find (\<lambda>(provider, variations).
      \<exists>v \<in> set variations. py_in (lower v) (lower ?org)) known_providers"
  have "hosting_key (Some org0) =
      (case ?found of
         Some (provider, variations) \<Rightarrow> Some provider
       | None \<Rightarrow> if list_ex (\<lambda>x. py_in x (lower ?org)) excluded_words then None else Some ?org)"
    using assms
    by (cases ?found) (auto simp: hosting_key_def Let_def match_provider_find)
  then have first: "hosting_key (Some org0) = category_by_rule ?org"
    by (simp only: py_in_lower_iff excluded_iff category_by_rule_def)
  have stripped: "strip_suffixes (name @ sfx) = name"
    if "sfx \<in> set corporate_suffixes \<or> sfx = []" and "free_of_suffixes name"
    using that strip_suffixes_trailing [of sfx name] strip_suffixes_free [of name] by auto
  have second: "(sfx \<in> set corporate_suffixes \<or> sfx = []) \<and> free_of_suffixes name \<longrightarrow>
      strip_suffixes (name @ sfx) = name"
    using stripped by (intro impI) (elim conjE)
  have third: "(sfx \<in> set corporate_suffixes \<or> sfx = []) \<and> free_of_suffixes name \<and>
      org0 = name @ sfx \<longrightarrow> hosting_key (Some org0) = category_by_rule name"
  proof (intro impI, elim conjE)
    assume a: "sfx \<in> set corporate_suffixes \<or> sfx = []" and b: "free_of_suffixes name"
      and org0: "org0 = name @ sfx"
    from a b have "strip_suffixes (name @ sfx) = name"
      by (rule stripped)
    with org0 have "strip_suffixes org0 = name"
      by (simp only:)
    with first show "hosting_key (Some org0) = category_by_rule name"
      by (simp only:)
  qed
  from first second third show ?thesis
    by (intro conjI)
qed

theorem hosting_key_first_provider_wins_witness:
  "category_by_rule ''hetzner online'' = Some ''Hetzner'' \<and>
   hosting_key (Some ''hetzner online Ltd.'') = Some ''Hetzner'' \<and>
   category_by_rule ''Acme'' = Some ''Acme'' \<and>
   hosting_key (Some ''Acme LLC'') = Some ''Acme'' \<and>
   strip_suffixes ''Acme LLC'' = ''Acme'' \<and>
   category_by_rule ''Google Azure Interconnect'' = Some ''Google Cloud'' \<and>
   hosting_key (Some ''Google Azure Interconnect'') = Some ''Google Cloud'' \<and>
   category_by_rule ''Springfield University'' = None \<and>
   hosting_key (Some ''Springfield University'') = None"
proof -
  have ltd: "'' Ltd.'' \<in> set corporate_suffixes \<or> '' Ltd.'' = []"
    and llc: "'' LLC'' \<in> set corporate_suffixes \<or> '' LLC'' = []"
    and none: "[] \<in> set corporate_suffixes \<or> [] = ([] :: string)"
    by (simp_all add: corporate_suffixes_def)
  have free: "free_of_suffixes ''hetzner online''" "free_of_suffixes ''Acme''"
    "free_of_suffixes ''Google Azure Interconnect''" "free_of_suffixes ''Springfield University''"
    unfolding free_of_suffixes_code by code_simp+
  have run: "hosting_key (Some ''hetzner online Ltd.'') = Some ''Hetzner''"
    "hosting_key (Some ''Acme LLC'') = Some ''Acme''"
    "hosting_key (Some ''Google Azure Interconnect'') = Some ''Google Cloud''"
    "hosting_key (Some ''Springfield University'') = None"
    by code_simp+
  have a: "hosting_key (Some ''hetzner online Ltd.'') = category_by_rule ''hetzner online''"
    by (rule hosting_key_first_provider_wins [where ?org0.0 = "''hetzner online Ltd.''" and sfx = "'' Ltd.''"
            and name = "''hetzner online''", THEN conjunct2, THEN conjunct2, THEN mp])
      (simp_all only: ltd free simp_thms, simp_all)
  have b: "hosting_key (Some ''Acme LLC'') = category_by_rule ''Acme''"
    by (rule hosting_key_first_provider_wins [where ?org0.0 = "''Acme LLC''" and sfx = "'' LLC''"
            and name = "''Acme''", THEN conjunct2, THEN conjunct2, THEN mp])
      (simp_all only: llc free simp_thms, simp_all)
  have b': "strip_suffixes (''Acme'' @ '' LLC'') = ''Acme''"
    by (rule hosting_key_first_provider_wins [where ?org0.0 = "''Acme LLC''" and sfx = "'' LLC''"
            and name = "''Acme''", THEN conjunct2, THEN conjunct1, THEN mp])
      (simp_all only: llc free simp_thms, simp_all)
  have c: "hosting_key (Some ''Google Azure Interconnect'') =
      category_by_rule ''Google Azure Interconnect''"
    by (rule hosting_key_first_provider_wins [where ?org0.0 = "''Google Azure Interconnect''" and sfx = "[]"
            and name = "''Google Azure Interconnect''", THEN conjunct2, THEN conjunct2, THEN mp])
      (simp_all only: none free simp_thms, simp_all)
  have d: "hosting_key (Some ''Springfield University'') =
      category_by_rule ''Springfield University''"
    by (rule hosting_key_first_provider_wins [where ?org0.0 = "''Springfield University''" and sfx = "[]"
            and name = "''Springfield University''", THEN conjunct2, THEN conjunct2, THEN mp])
      (simp_all only: none free simp_thms, simp_all)
  from b' have b'': "strip_suffixes ''Acme LLC'' = ''Acme''"
    by simp
  from a b c d run b'' show ?thesis
    by (simp only: simp_thms)
qed

text \<open>
  Claim C6 fails for names that are counted as they are: removing the suffixes once can
  leave a name that still ends in a suffix, and classifying that name again gives another
  name.
\<close>

theorem hosting_key_not_idempotent:
  "hosting_key (Some ''Acme L LLCLC'') = Some ''Acme LLC'' \<and>
   hosting_key (Some ''Acme LLC'') \<noteq> Some ''Acme LLC''"
  by code_simp

lemma provider_names_fixed: "\<forall>p \<in> set (map fst known_providers). hosting_key (Some p) = Some p"
  by code_simp

text \<open>
  Claim C6, as amended. When a name is classified as \<open>c\<close>, and \<open>c\<close> is one of the provider
  names of \<^verbatim>\<open>known_providers\<close> or is a non-empty name that the removal of suffixes leaves
  as it is, then classifying \<open>c\<close> gives \<open>c\<close> again.
\<close>

theorem hosting_key_idempotent_on_stable_names:
  assumes "hosting_key (Some org0) = Some c"
    and "c \<in> fst ` set known_providers \<or> (c \<noteq> [] \<and> strip_suffixes c = c)"
  shows "hosting_key (Some c) = Some c"
proof (cases "c \<in> fst ` set known_providers")
  case True
  then obtain row where "row \<in> set known_providers" "c = fst row"
    by (elim imageE)
  with provider_names_fixed show ?thesis
    by simp
next
  case False
  with assms(2) have c: "c \<noteq> []" "strip_suffixes c = c"
    by simp_all
  from assms(1) False have "match_provider known_providers (strip_suffixes org0) = None"
    by (auto simp: hosting_key_def Let_def split: option.splits if_splits
          dest: match_provider_name)
  moreover from assms(1) this have "c = strip_suffixes org0"
    "\<not> list_ex (\<lambda>x. py_in x (lower (strip_suffixes org0))) excluded_words"
    by (auto simp: hosting_key_def Let_def split: option.splits if_splits)
  ultimately show ?thesis
    using c by (simp add: hosting_key_def Let_def)
qed

theorem hosting_key_idempotent_on_stable_names_witness:
  "hosting_key (Some ''Hetzner Online GmbH'') = Some ''Hetzner'' \<and>
   hosting_key (Some ''Hetzner'') = Some ''Hetzner''"
proof -
  have run: "hosting_key (Some ''Hetzner Online GmbH'') = Some ''Hetzner''"
    by code_simp
  have name: "''Hetzner'' \<in> fst ` set known_providers \<or>
      (''Hetzner'' \<noteq> [] \<and> strip_suffixes ''Hetzner'' = ''Hetzner'')"
    by code_simp
  from run hosting_key_idempotent_on_stable_names [OF run name] show ?thesis
    by (rule conjI)
qed

subsection \<open>Legend of the pie chart\<close>

lemma srt_set: "sorts_by_count_descending srt \<Longrightarrow> set (srt t) = set t"
  by (metis sorts_by_count_descending_def mset_eq_setD)

text \<open>
  Claim C5 fails: with the counts 60, 35 and 5 the category at 5 percent passes the test
  \<^verbatim>\<open>Percentage >= 1.5\<close>, so it has its own slice and legend entry, and there is no row
  \<^verbatim>\<open>Others\<close>.
\<close>

theorem legend_keeps_five_percent_category:
  "''C'' \<in> set (map fst (legend (plot_pie_chart_with_filtered_legend insertion_sort_desc
          [(Some ''A'', 60), (Some ''B'', 35), (Some ''C'', 5)] False))) \<and>
   map fst (legend (plot_pie_chart_with_filtered_legend insertion_sort_desc
          [(Some ''A'', 60), (Some ''B'', 35), (Some ''C'', 5)] False)) \<noteq> [''A'', ''B''] \<and>
   ''Others'' \<notin> set (map fst (slices (plot_pie_chart_with_filtered_legend insertion_sort_desc
          [(Some ''A'', 60), (Some ''B'', 35), (Some ''C'', 5)] False)))"
proof -
  have run: "plot_pie_chart_with_filtered_legend insertion_sort_desc
      [(Some ''A'', 60), (Some ''B'', 35), (Some ''C'', 5)] False =
    \<lparr>slices = [(''A'', 60), (''B'', 35), (''C'', 5)],
     legend = [(''A'', 60), (''B'', 35), (''C'', 5)]\<rparr>"
    by code_simp
  show ?thesis
    unfolding run by simp
qed

lemma shares:
  assumes "0 < m"
  shows "(of_nat (12 * m) / of_nat (20 * m) * 100 :: rat) = 60"
    and "(of_nat (7 * m) / of_nat (20 * m) * 100 :: rat) = 35"
    and "(of_nat m / of_nat (20 * m) * 100 :: rat) = 5"
  using assms by simp_all

text \<open>
  Claim C5, as amended. For a table of three categories whose counts are in the proportion
  60 to 35 to 5, and for every sort that keeps the promise of \<^verbatim>\<open>sort_values\<close>, the legend
  has exactly three entries, one for each category with its percentage 60, 35 and 5, and
  the slices are the three rows of the table: no row \<^verbatim>\<open>Others\<close> is added.
\<close>

theorem legend_lists_all_three:
  assumes "sorts_by_count_descending srt" and "0 < m"
  shows "mset (legend (plot_pie_chart_with_filtered_legend srt
                 [(Some a, 12 * m), (Some b, 7 * m), (Some c, m)] False)) =
           {#(a, 60), (b, 35), (c, 5)#} \<and>
         mset (slices (plot_pie_chart_with_filtered_legend srt
                 [(Some a, 12 * m), (Some b, 7 * m), (Some c, m)] False)) =
           {#(a, 12 * m), (b, 7 * m), (c, m)#}"
proof -
  let ?t = "[(a, 12 * m), (b, 7 * m), (c, m)]"
  let ?g = "\<lambda>row :: string \<times> nat. (fst row, (of_nat (snd row) / of_nat (20 * m) * 100 :: rat))"
  have whole: "sum_list (map snd [(Some a, 12 * m), (Some b, 7 * m), (Some c, m)]) = 20 * m"
    by simp
  have kept: "concat (map (\<lambda>(c, n). case c of None \<Rightarrow> [] | Some x \<Rightarrow> [(x, n)])
                [(Some a, 12 * m), (Some b, 7 * m), (Some c, m)]) = ?t"
    by simp
  have pct: "percentage (20 * m) n = Some (of_nat n / of_nat (20 * m) * 100)" for n
    using assms(2) by (simp add: percentage_def)
  have rows: "set (srt ?t) = {(a, 12 * m), (b, 7 * m), (c, m)}"
    using srt_set [OF assms(1), of ?t] by simp
  have big: "(3 / 2 :: rat) \<le> of_nat (snd row) / of_nat (20 * m) * 100"
    if "row \<in> set (srt ?t)" for row
  proof -
    from that rows consider "row = (a, 12 * m)" | "row = (b, 7 * m)" | "row = (c, m)"
      by blast
    then show ?thesis
      by cases (use assms(2) in simp_all)
  qed
  have large: "filter (\<lambda>row. at_least (3 / 2) (percentage (20 * m) (snd row))) (srt ?t) = srt ?t"
  proof (rule filter_True, rule ballI)
    fix row
    assume "row \<in> set (srt ?t)"
    from big [OF this] show "at_least (3 / 2) (percentage (20 * m) (snd row))"
      by (simp only: at_least_def pct option.case)
  qed
  have small: "filter (\<lambda>row. below (3 / 2) (percentage (20 * m) (snd row))) (srt ?t) = []"
  proof (rule filter_False, rule ballI)
    fix row
    assume "row \<in> set (srt ?t)"
    from big [OF this] show "\<not> below (3 / 2) (percentage (20 * m) (snd row))"
      by (simp only: below_def pct option.case not_less)
  qed
  have entries: "concat (map (\<lambda>(c, n). case percentage (20 * m) n of None \<Rightarrow> []
                     | Some p \<Rightarrow> if p \<ge> 3 / 2 then [(c, p)] else []) (srt ?t)) =
                 map ?g (srt ?t)"
  proof -
    have "(case row of (c, n) \<Rightarrow> case percentage (20 * m) n of None \<Rightarrow> []
                     | Some p \<Rightarrow> if p \<ge> 3 / 2 then [(c, p)] else []) = [?g row]"
      if "row \<in> set (srt ?t)" for row
      using big [OF that] by (cases row) (simp only: pct option.case prod.case fst_conv snd_conv if_True)
    then have "map (\<lambda>(c, n). case percentage (20 * m) n of None \<Rightarrow> []
                     | Some p \<Rightarrow> if p \<ge> 3 / 2 then [(c, p)] else []) (srt ?t) =
          map (\<lambda>row. [?g row]) (srt ?t)"
      by (intro map_cong refl)
    then show ?thesis
      by (simp only: concat_map_singleton)
  qed
  have chart: "plot_pie_chart_with_filtered_legend srt
                 [(Some a, 12 * m), (Some b, 7 * m), (Some c, m)] False =
               \<lparr>slices = srt ?t, legend = map ?g (srt ?t)\<rparr>"
    unfolding plot_pie_chart_with_filtered_legend_def Let_def
    apply (simp only: if_False whole kept large small)
    apply (simp only: list.map sum_list.Nil less_irrefl if_False)
    apply (simp only: entries)
    done
  have same: "mset (srt ?t) = mset ?t"
    using assms(1) by (simp add: sorts_by_count_descending_def)
  have "mset (map ?g (srt ?t)) = image_mset ?g (mset ?t)"
    by (simp only: mset_map same)
  also have "\<dots> = {#(a, 60), (b, 35), (c, 5)#}"
    by (simp only: mset.simps image_mset_add_mset image_mset_empty fst_conv snd_conv
          shares [OF assms(2)])
  finally have "mset (map ?g (srt ?t)) = {#(a, 60), (b, 35), (c, 5)#}" .
  moreover from same have "mset (srt ?t) = {#(a, 12 * m), (b, 7 * m), (c, m)#}"
    by simp
  ultimately show ?thesis
    by (simp only: chart pie_chart.simps simp_thms)
qed

theorem legend_lists_all_three_witness:
  "mset (legend (plot_pie_chart_with_filtered_legend insertion_sort_desc
                 [(Some ''A'', 60), (Some ''B'', 35), (Some ''C'', 5)] False)) =
           {#(''A'', 60), (''B'', 35), (''C'', 5)#} \<and>
   mset (slices (plot_pie_chart_with_filtered_legend insertion_sort_desc
                 [(Some ''A'', 60), (Some ''B'', 35), (Some ''C'', 5)] False)) =
           {#(''A'', 60), (''B'', 35), (''C'', 5)#}"
proof -
  have pos: "(0::nat) < 5"
    by simp
  from legend_lists_all_three [OF insertion_sort_desc_sorts pos, of "''A''" "''B''" "''C''"]
  show ?thesis
    by simp
qed

end
